(* ===== verification/Prelude.thy ===== *)
theory Prelude
  imports Complex_Main "HOL-Library.Signed_Division"
begin

text \<open>
  Shared vocabulary of the development: the JavaScript number and array semantics that
  \<open>src/index.js\<close> relies on, written as executable HOL functions, the named collections
  the component theories fill, and the generic lemmas on them.
  JavaScript numbers are modelled as exact \<open>real\<close>s (IEEE rounding is not modelled);
  integral results of \<open>Math.floor\<close> are \<open>int\<close>s.
\<close>

named_theorems js_simps \<open>evaluation rules for the JavaScript helpers\<close>
named_theorems config_defs \<open>the constants of src/index.js, lines 4-18\<close>

datatype js_error = TypeError

text \<open>\<open>Math.trunc\<close>, and the number remainder \<open>x % y\<close>: the sign of the dividend, not of
  the divisor (ECMAScript's Number::remainder). A zero divisor (NaN in JavaScript) never
  occurs: the code only divides by the constant image width.\<close>

definition js_trunc :: "real \<Rightarrow> int" where
  "js_trunc x = (if 0 \<le> x then \<lfloor>x\<rfloor> else \<lceil>x\<rceil>)"

definition js_fmod :: "real \<Rightarrow> real \<Rightarrow> real" where
  "js_fmod x y = x - y * of_int (js_trunc (x / y))"

text \<open>\<open>a % b\<close> on integral numbers: truncated remainder (\<open>smod\<close>), NaN (here \<open>None\<close>)
  for a zero divisor.\<close>

definition js_rem :: "int \<Rightarrow> int \<Rightarrow> int option" where
  "js_rem a b = (if b = 0 then None else Some (a smod b))"

text \<open>Reading \<open>xs[i]\<close> of an array: \<open>undefined\<close> (here \<open>None\<close>) outside \<open>0..length-1\<close>
  and for a NaN index.\<close>

definition js_get :: "'a list \<Rightarrow> int option \<Rightarrow> 'a option" where
  "js_get xs i = (case i of
      None \<Rightarrow> None
    | Some j \<Rightarrow> (if 0 \<le> j \<and> j < int (length xs) then Some (xs ! nat j) else None))"

lemma js_fmod_nonneg_eq [js_simps]:
  assumes "0 \<le> x" "0 < y"
  shows "js_fmod x y = x - y * of_int \<lfloor>x / y\<rfloor>"
  using assms by (simp add: js_fmod_def js_trunc_def)

lemma js_fmod_range:
  assumes "0 \<le> x" "0 < y"
  shows "0 \<le> js_fmod x y \<and> js_fmod x y < y"
proof -
  have lo: "of_int \<lfloor>x / y\<rfloor> \<le> x / y" and hi: "x / y < of_int \<lfloor>x / y\<rfloor> + 1"
    by linarith+
  from mult_right_mono [OF lo, of y] assms have "of_int \<lfloor>x / y\<rfloor> * y \<le> x"
    by simp
  moreover from mult_strict_right_mono [OF hi, of y] assms
  have "x < (of_int \<lfloor>x / y\<rfloor> + 1) * y"
    by simp
  ultimately have "y * of_int \<lfloor>x / y\<rfloor> \<le> x" and "x < y * of_int \<lfloor>x / y\<rfloor> + y"
    by (simp_all add: algebra_simps)
  with assms show ?thesis by (simp add: js_fmod_nonneg_eq)
qed

lemma js_fmod_once:
  assumes "y \<le> x" "x < 2 * y" "0 < y"
  shows "js_fmod x y = x - y"
proof -
  from assms have "1 \<le> x / y" and "x / y < 2"
    by (simp_all add: field_simps)
  then have "\<lfloor>x / y\<rfloor> = 1" by linarith
  with assms show ?thesis by (simp add: js_fmod_nonneg_eq)
qed

lemma js_rem_nonneg [js_simps]:
  "0 \<le> a \<Longrightarrow> 0 < b \<Longrightarrow> js_rem a b = Some (a mod b)"
  by (simp add: js_rem_def smod_mod_positive)

lemma js_get_Some [js_simps]:
  "0 \<le> j \<Longrightarrow> j < int (length xs) \<Longrightarrow> js_get xs (Some j) = Some (xs ! nat j)"
  by (simp add: js_get_def)

lemma js_get_None [simp]: "js_get xs None = None"
  by (simp add: js_get_def)

lemma js_get_mod [js_simps]:
  "0 \<le> a \<Longrightarrow> xs \<noteq> [] \<Longrightarrow>
     js_get xs (js_rem a (int (length xs))) = Some (xs ! nat (a mod int (length xs)))"
  by (simp add: js_rem_nonneg js_get_Some)

lemma ceiling_measure_drop:
  fixes a b :: real
  assumes "a \<le> b - 1" "0 < b"
  shows "nat \<lceil>a\<rceil> < nat \<lceil>b\<rceil>"
proof -
  have "\<lceil>a\<rceil> \<le> \<lceil>b\<rceil> - 1" using ceiling_mono [OF assms(1)] by simp
  moreover have "0 < \<lceil>b\<rceil>" using assms(2) by simp
  ultimately show ?thesis by arith
qed

end
