(* ===== verification/Config.thy ===== *)
theory Config
  imports Prelude
begin

text \<open>
  The constants of \<open>src/index.js\<close> (lines 4-18) and the phase enumeration \<open>STATE\<close>.
  The geometry derived from them in \<open>draw\<close> and \<open>update\<close> (canvas size, the centre of
  the strip, the centre slot) is computed here once and shared.
\<close>

definition IMAGE_WIDTH :: real where [config_defs]: "IMAGE_WIDTH = 128"
definition IMAGE_HEIGHT :: real where [config_defs]: "IMAGE_HEIGHT = 128"
definition IMAGE_COUNT :: int where [config_defs]: "IMAGE_COUNT = 3"
definition OFFSET :: int where [config_defs]: "OFFSET = 1"
definition BASE_SPEED :: real where [config_defs]: "BASE_SPEED = 5"
definition ACCELERATION_DURATION_MIN :: int where [config_defs]: "ACCELERATION_DURATION_MIN = 500"
definition ACCELERATION_DURATION_MAX :: int where [config_defs]: "ACCELERATION_DURATION_MAX = 1500"
definition ACCELERATION_STEP :: real where [config_defs]: "ACCELERATION_STEP = 1"
definition DECELERATION_MULTIPLIER :: real where [config_defs]: "DECELERATION_MULTIPLIER = 95 / 100"
definition RETURN_MULTIPLIER :: real where [config_defs]: "RETURN_MULTIPLIER = 1 / 10"

text \<open>\<open>STATE = {ACCELERATION: 1, DECELERATION: 2, RETURN: 3}\<close>: the variable \<open>state\<close>
  only ever holds one of the three codes, so the enumeration is a datatype.\<close>

datatype phase = ACCELERATION | DECELERATION | RETURN

primrec STATE :: "phase \<Rightarrow> nat" where
  "STATE ACCELERATION = 1"
| "STATE DECELERATION = 2"
| "STATE RETURN = 3"

text \<open>Canvas size set by \<open>init\<close> (line 121).\<close>

definition canvas_width :: real where
  [config_defs]: "canvas_width = IMAGE_WIDTH * of_int IMAGE_COUNT"

definition canvas_height :: real where
  [config_defs]: "canvas_height = IMAGE_HEIGHT"

text \<open>\<open>const center = IMAGE_WIDTH * IMAGE_COUNT / 2\<close> (line 82) and
  \<open>const halfCount = Math.floor(IMAGE_COUNT / 2)\<close> (line 95).\<close>

definition center :: real where
  [config_defs]: "center = IMAGE_WIDTH * of_int IMAGE_COUNT / 2"

definition halfCount :: int where
  [config_defs]: "halfCount = \<lfloor>of_int IMAGE_COUNT / (2::real)\<rfloor>"

lemma config_values [simp]:
  "IMAGE_WIDTH = 128" "IMAGE_HEIGHT = 128" "IMAGE_COUNT = 3" "OFFSET = 1"
  "BASE_SPEED = 5" "ACCELERATION_STEP = 1" "DECELERATION_MULTIPLIER = 95 / 100"
  "RETURN_MULTIPLIER = 1 / 10" "ACCELERATION_DURATION_MIN = 500"
  "ACCELERATION_DURATION_MAX = 1500"
  "canvas_width = 384" "canvas_height = 128" "center = 192" "halfCount = 1"
  by (simp_all add: config_defs)

lemma STATE_inj: "STATE p = STATE q \<longleftrightarrow> p = q"
  by (cases p; cases q) simp_all

end
