(* ===== verification/Reel_State.thy ===== *)
theory Reel_State
  imports Config
begin

text \<open>
  The simulation state of \<open>src/index.js\<close>: the six top-level \<open>let\<close> variables
  (lines 28-33) as one record, the helper \<open>random\<close> (line 39), and the trigger: the body
  of the canvas click listener registered by \<open>init\<close> (lines 134-145).
  The click listener is the only external input; it re-arms the reel only from the
  resting condition \<open>speed = 0 \<and> offset = 0\<close>.
\<close>

record reel =
  speed :: real
  state :: phase
  startIndex :: nat
  startTime :: real
  accelerationDuration :: int
  offset :: real

definition init_reel :: reel where
  "init_reel = \<lparr>speed = 0, state = RETURN, startIndex = 0, startTime = 0,
                accelerationDuration = 0, offset = 0\<rparr>"

text \<open>\<open>random(min, max) = Math.floor(Math.random() * (max - min + 1) + min)\<close>, with
  the draw of \<open>Math.random()\<close> (a number in \<open>[0, 1)\<close>) passed as \<open>rnd\<close>.\<close>

definition random_int :: "int \<Rightarrow> int \<Rightarrow> real \<Rightarrow> int" where
  "random_int min_v max_v rnd = \<lfloor>rnd * of_int (max_v - min_v + 1) + of_int min_v\<rfloor>"

text \<open>The resting condition tested by the click listener (line 137).\<close>

definition resting :: "reel \<Rightarrow> bool" where
  "resting r \<longleftrightarrow> speed r = 0 \<and> offset r = 0"

text \<open>The click listener at time \<open>now\<close> (\<open>performance.now()\<close>) with random draw
  \<open>rnd\<close>: the new state, and whether \<open>requestAnimationFrame(update)\<close> was called.\<close>

definition on_click :: "real \<Rightarrow> real \<Rightarrow> reel \<Rightarrow> reel \<times> bool" where
  "on_click now rnd r =
     (if speed r = 0 \<and> offset r = 0 then
        (r\<lparr>startTime := now,
           accelerationDuration :=
             random_int ACCELERATION_DURATION_MIN ACCELERATION_DURATION_MAX rnd,
           state := ACCELERATION, speed := BASE_SPEED\<rparr>, True)
      else (r, False))"

lemma random_int_bounds:
  assumes "min_v \<le> max_v" "0 \<le> rnd" "rnd < 1"
  shows "min_v \<le> random_int min_v max_v rnd \<and> random_int min_v max_v rnd \<le> max_v"
proof -
  let ?w = "of_int (max_v - min_v + 1) :: real"
  have w: "0 < ?w" using assms(1) by simp
  have "0 \<le> rnd * ?w" using assms(2) w by simp
  moreover have "rnd * ?w < ?w" using assms(3) w by simp
  ultimately have "of_int min_v \<le> rnd * ?w + of_int min_v"
    and "rnd * ?w + of_int min_v < of_int (max_v + 1)"
    by simp_all
  then show ?thesis
    unfolding random_int_def by (simp only: le_floor_iff floor_le_iff) simp
qed

lemma random_int_hits:
  assumes "min_v \<le> k" "k \<le> max_v"
  shows "random_int min_v max_v (of_int (k - min_v) / of_int (max_v - min_v + 1)) = k"
proof -
  have "0 < (of_int (max_v - min_v + 1) :: real)" using assms by simp
  then show ?thesis by (simp add: random_int_def)
qed

lemma on_click_accept:
  "resting r \<Longrightarrow> on_click now rnd r =
     (r\<lparr>startTime := now,
        accelerationDuration := random_int ACCELERATION_DURATION_MIN ACCELERATION_DURATION_MAX rnd,
        state := ACCELERATION, speed := BASE_SPEED\<rparr>, True)"
  by (simp add: on_click_def resting_def)

lemma on_click_reject:
  "\<not> resting r \<Longrightarrow> on_click now rnd r = (r, False)"
  by (simp add: on_click_def resting_def)

text \<open>C8: a click at rest arms a spin: it requests a frame, enters \<open>ACCELERATION\<close>
  with \<open>speed = BASE_SPEED\<close>, records the click time, draws an acceleration duration in
  \<open>[ACCELERATION_DURATION_MIN, ACCELERATION_DURATION_MAX]\<close> and leaves the strip
  (\<open>startIndex\<close>, \<open>offset\<close>) where it is.\<close>

theorem on_click_arms:
  assumes "resting r" "0 \<le> rnd" "rnd < 1"
  shows "snd (on_click now rnd r) \<and>
         state (fst (on_click now rnd r)) = ACCELERATION \<and>
         speed (fst (on_click now rnd r)) = BASE_SPEED \<and>
         startTime (fst (on_click now rnd r)) = now \<and>
         ACCELERATION_DURATION_MIN \<le> accelerationDuration (fst (on_click now rnd r)) \<and>
         accelerationDuration (fst (on_click now rnd r)) \<le> ACCELERATION_DURATION_MAX \<and>
         startIndex (fst (on_click now rnd r)) = startIndex r \<and>
         offset (fst (on_click now rnd r)) = offset r"
  using random_int_bounds [of ACCELERATION_DURATION_MIN ACCELERATION_DURATION_MAX rnd] assms
  by (simp add: on_click_accept)

text \<open>C9: the values \<open>random(min, max)\<close> takes over the draws \<open>Math.random() \<in> [0, 1)\<close>
  are exactly the integers of \<open>[min, max]\<close>: both bounds are inclusive and every value
  in between can occur.\<close>

theorem random_int_range:
  assumes "min_v \<le> max_v"
  shows "(\<exists>rnd. 0 \<le> rnd \<and> rnd < 1 \<and> random_int min_v max_v rnd = k) \<longleftrightarrow>
         min_v \<le> k \<and> k \<le> max_v"
proof
  assume "\<exists>rnd. 0 \<le> rnd \<and> rnd < 1 \<and> random_int min_v max_v rnd = k"
  then show "min_v \<le> k \<and> k \<le> max_v" using random_int_bounds [OF assms] by blast
next
  assume k: "min_v \<le> k \<and> k \<le> max_v"
  let ?rnd = "of_int (k - min_v) / of_int (max_v - min_v + 1) :: real"
  have w: "0 < (of_int (max_v - min_v + 1) :: real)" using assms by simp
  have "0 \<le> ?rnd" using k w by simp
  moreover have "?rnd < 1" using k w by (simp add: divide_less_eq)
  moreover have "random_int min_v max_v ?rnd = k" using k by (intro random_int_hits) auto
  ultimately show "\<exists>rnd. 0 \<le> rnd \<and> rnd < 1 \<and> random_int min_v max_v rnd = k" by blast
qed

theorem on_click_arms_witness:
  "on_click 250 (1 / 2) init_reel =
     (init_reel\<lparr>startTime := 250, accelerationDuration := 1000, state := ACCELERATION,
                 speed := 5\<rparr>, True)
   \<and> 500 \<le> accelerationDuration (fst (on_click 250 (1 / 2) init_reel))
   \<and> accelerationDuration (fst (on_click 250 (1 / 2) init_reel)) \<le> 1500"
proof -
  have "resting init_reel" by (simp add: resting_def init_reel_def)
  from on_click_arms [OF this, of "1 / 2" 250]
  have "ACCELERATION_DURATION_MIN \<le> accelerationDuration (fst (on_click 250 (1 / 2) init_reel)) \<and>
        accelerationDuration (fst (on_click 250 (1 / 2) init_reel)) \<le> ACCELERATION_DURATION_MAX"
    by simp
  moreover have "random_int 500 1500 (1 / 2) = 1000" by (simp add: random_int_def)
  ultimately show ?thesis by (simp add: on_click_def init_reel_def)
qed

theorem random_int_range_witness:
  "(\<exists>rnd. 0 \<le> rnd \<and> rnd < 1 \<and> random_int 500 1500 rnd = 1500)
   \<and> \<not> (\<exists>rnd. 0 \<le> rnd \<and> rnd < 1 \<and> random_int 500 1500 rnd = 1501)"
  using random_int_range [of 500 1500 1500] random_int_range [of 500 1500 1501] by simp

end
