(* ===== verification/Canvas.thy ===== *)
theory Canvas
  imports Prelude
begin

text \<open>
  The browser's 2D context, the drawing surface \<open>src/index.js\<close> writes to. It is not
  code of the repository: it is modelled from the Canvas API as far as the program uses
  it. \<open>draw\<close> and \<open>update\<close> produce the list of context calls they make (type
  \<open>ctx_call\<close>); \<open>exec_calls\<close> runs such a list against the context state (fill and
  stroke style and the current path) and yields what was painted. The current path is
  only cleared by \<open>beginPath()\<close>, which the program never calls.
\<close>

datatype 'img ctx_call =
    SetFillStyle string
  | FillRect real real real real
  | DrawImage 'img real real real real
  | MoveTo real real
  | LineTo real real
  | ClosePath
  | SetStrokeStyle string
  | Stroke

datatype path_cmd = PMove real real | PLine real real | PClose

datatype 'img paint =
    PaintRect string real real real real
  | PaintImage 'img real real real real
  | PaintStroke string "path_cmd list"

record ctx =
  fillStyle :: string
  strokeStyle :: string
  path :: "path_cmd list"

definition init_ctx :: ctx where
  "init_ctx = \<lparr>fillStyle = ''#000000'', strokeStyle = ''#000000'', path = []\<rparr>"

fun exec_call :: "'img ctx_call \<Rightarrow> ctx \<Rightarrow> ctx \<times> 'img paint list" where
  "exec_call (SetFillStyle s) c = (c\<lparr>fillStyle := s\<rparr>, [])"
| "exec_call (FillRect x y w h) c = (c, [PaintRect (fillStyle c) x y w h])"
| "exec_call (DrawImage i x y w h) c = (c, [PaintImage i x y w h])"
| "exec_call (MoveTo x y) c = (c\<lparr>path := path c @ [PMove x y]\<rparr>, [])"
| "exec_call (LineTo x y) c = (c\<lparr>path := path c @ [PLine x y]\<rparr>, [])"
| "exec_call ClosePath c = (c\<lparr>path := path c @ [PClose]\<rparr>, [])"
| "exec_call (SetStrokeStyle s) c = (c\<lparr>strokeStyle := s\<rparr>, [])"
| "exec_call Stroke c = (c, [PaintStroke (strokeStyle c) (path c)])"

fun exec_calls :: "'img ctx_call list \<Rightarrow> ctx \<Rightarrow> ctx \<times> 'img paint list" where
  "exec_calls [] c = (c, [])"
| "exec_calls (k # ks) c =
     (let (c1, p1) = exec_call k c; (c2, p2) = exec_calls ks c1 in (c2, p1 @ p2))"

text \<open>Number of path commands a call list appends to the current path.\<close>

fun path_growth :: "'img ctx_call list \<Rightarrow> nat" where
  "path_growth [] = 0"
| "path_growth (MoveTo _ _ # ks) = Suc (path_growth ks)"
| "path_growth (LineTo _ _ # ks) = Suc (path_growth ks)"
| "path_growth (ClosePath # ks) = Suc (path_growth ks)"
| "path_growth (_ # ks) = path_growth ks"

lemma path_growth_append: "path_growth (ks @ ls) = path_growth ks + path_growth ls"
  by (induction ks rule: path_growth.induct) simp_all

lemma exec_call_path_length:
  "length (path (fst (exec_call k c))) = length (path c) + path_growth [k]"
  by (cases k) simp_all

lemma path_growth_Cons: "path_growth (k # ks) = path_growth [k] + path_growth ks"
  by (cases k) simp_all

lemma exec_calls_path_length:
  "length (path (fst (exec_calls ks c))) = length (path c) + path_growth ks"
proof (induction ks arbitrary: c)
  case Nil
  then show ?case by simp
next
  case (Cons k ks)
  obtain c1 p1 where e: "exec_call k c = (c1, p1)" by fastforce
  have "length (path c1) = length (path c) + path_growth [k]"
    using exec_call_path_length [of k c] e by simp
  with Cons.IH [of c1] e show ?case
    by (simp add: path_growth_Cons [of k ks] case_prod_beta)
qed

lemma exec_calls_append:
  "exec_calls (ks @ ls) c =
     (let (c1, p1) = exec_calls ks c; (c2, p2) = exec_calls ls c1 in (c2, p1 @ p2))"
  by (induction ks arbitrary: c) (auto split: prod.splits)

end
