(* ===== verification/Draw.thy ===== *)
theory Draw
  imports Reel_State Canvas
begin

text \<open>
  The renderer: \<open>draw\<close> of \<open>src/index.js\<close> (lines 41-65). It reads the globals
  \<open>startIndex\<close> and \<open>offset\<close> and the loaded \<open>images\<close> and issues canvas calls: a
  white background, the images of slots \<open>-OFFSET .. IMAGE_COUNT + OFFSET - 1\<close> at
  \<open>IMAGE_WIDTH * index - offset\<close>, and the centre divider. An \<open>undefined\<close> image
  makes \<open>drawImage\<close> throw a TypeError, which aborts \<open>draw\<close> after the calls already
  made; the result pairs those calls with the error, if any.
\<close>

type_synonym 'img draw_result = "'img ctx_call list \<times> js_error option"

definition background :: "'img ctx_call list" where
  "background = [SetFillStyle ''#ffffff'', FillRect 0 0 canvas_width canvas_height]"

text \<open>The slot loop (lines 48-58), one iteration per slot index.\<close>

fun draw_slots :: "'img list \<Rightarrow> reel \<Rightarrow> int list \<Rightarrow> 'img draw_result" where
  "draw_slots images r [] = ([], None)"
| "draw_slots images r (index # rest) =
     (let imagesLength = int (length images);
          imageIndex = (if index < 0 then index + imagesLength else index)
      in case js_get images (js_rem (imageIndex + int (startIndex r)) imagesLength) of
           None \<Rightarrow> ([], Some TypeError)
         | Some img \<Rightarrow>
             (let (cs, e) = draw_slots images r rest
              in (DrawImage img (IMAGE_WIDTH * of_int index - offset r) 0
                    IMAGE_WIDTH IMAGE_HEIGHT # cs, e)))"

definition slot_indices :: "int list" where
  "slot_indices = [- OFFSET .. IMAGE_COUNT + OFFSET - 1]"

text \<open>The divider at \<open>center + 0.5\<close> with \<open>center = Math.floor(canvas.width / 2)\<close>
  (lines 43 and 60-64).\<close>

definition divider_x :: real where
  "divider_x = of_int \<lfloor>canvas_width / 2\<rfloor> + 1 / 2"

definition divider :: "'img ctx_call list" where
  "divider =
     [MoveTo divider_x 0, LineTo divider_x canvas_height, ClosePath,
      SetStrokeStyle ''rgba(0, 0, 0, 0.5)'', Stroke]"

definition draw :: "'img list \<Rightarrow> reel \<Rightarrow> 'img draw_result" where
  "draw images r =
     (let (cs, e) = draw_slots images r slot_indices
      in case e of
           Some err \<Rightarrow> (background @ cs, Some err)
         | None \<Rightarrow> (background @ cs @ divider, None))"

text \<open>The reference renderer of the design (spec section 4.2): slot \<open>k\<close> shows image
  \<open>(k + startIndex) mod N\<close>, taken with a non-negative remainder.\<close>

definition slot_call :: "'img list \<Rightarrow> reel \<Rightarrow> int \<Rightarrow> 'img ctx_call" where
  "slot_call images r k =
     DrawImage (images ! nat ((k + int (startIndex r)) mod int (length images)))
       (IMAGE_WIDTH * of_int k - offset r) 0 IMAGE_WIDTH IMAGE_HEIGHT"

lemma slot_indices_eq [simp]: "slot_indices = [-1, 0, 1, 2, 3]"
  unfolding slot_indices_def config_values by code_simp

lemma divider_x_eq [simp]: "divider_x = 385 / 2"
  by (simp add: divider_x_def)

lemma draw_slots_lookup:
  assumes "images \<noteq> []" "- int (length images) \<le> k"
  shows "js_get images (js_rem ((if k < 0 then k + int (length images) else k) + int s)
           (int (length images)))
         = Some (images ! nat ((k + int s) mod int (length images)))"
proof -
  let ?n = "int (length images)"
  let ?a = "(if k < 0 then k + ?n else k) + int s"
  have "0 \<le> ?a" using assms(2) by simp
  moreover have "?a mod ?n = (k + int s) mod ?n"
  proof (cases "k < 0")
    case True
    then have "?a = (k + int s) + ?n" by simp
    then show ?thesis by (simp only: mod_add_self2)
  qed simp
  ultimately show ?thesis using assms(1) by (simp add: js_get_mod)
qed
lemma draw_slots_ok:
  assumes "images \<noteq> []" "\<forall>k \<in> set ks. - int (length images) \<le> k"
  shows "draw_slots images r ks = (map (slot_call images r) ks, None)"
  using assms(2)
proof (induction ks)
  case Nil
  then show ?case by simp
next
  case (Cons k ks)
  then have "draw_slots images r ks = (map (slot_call images r) ks, None)" by simp
  moreover from Cons.prems have "- int (length images) \<le> k" by simp
  ultimately show ?case
    using draw_slots_lookup [OF assms(1), of k "startIndex r"]
    by (simp add: slot_call_def Let_def)
qed

lemma draw_ok:
  "images \<noteq> [] \<Longrightarrow>
   draw images r = (background @ map (slot_call images r) [-1, 0, 1, 2, 3] @ divider, None)"
proof -
  assume ne: "images \<noteq> []"
  then have "\<forall>k \<in> set slot_indices. - int (length images) \<le> k"
    by (cases images) auto
  from draw_slots_ok [OF ne this] show ?thesis
    by (simp add: draw_def del: draw_slots.simps)
qed

lemma draw_empty: "draw [] r = (background, Some TypeError)"
  by (simp add: draw_def js_rem_def)
text \<open>Which slot covers a pixel column: with the offset in \<open>[0, IMAGE_WIDTH]\<close>, column
  \<open>x\<close> of the canvas lies in the image of slot \<open>\<lfloor>(x + offset) / IMAGE_WIDTH\<rfloor>\<close>,
  one of the slots 0 to 3 that \<open>draw\<close> paints.\<close>

lemma draw_column:
  assumes "images \<noteq> []" "0 \<le> offset r" "offset r \<le> IMAGE_WIDTH" "0 \<le> x" "x < canvas_width"
  defines "k \<equiv> \<lfloor>(x + offset r) / IMAGE_WIDTH\<rfloor>"
  shows "slot_call images r k \<in> set (fst (draw images r)) \<and>
         IMAGE_WIDTH * of_int k - offset r \<le> x \<and> x < IMAGE_WIDTH * of_int k - offset r + IMAGE_WIDTH"
proof -
  have k: "0 \<le> k" "k \<le> 3" unfolding k_def using assms(2-5) by (simp_all add: floor_le_iff)
  then have "k \<in> set [-1, 0, 1, 2, 3]" by auto
  then have "slot_call images r k \<in> set (fst (draw images r))" by (auto simp: draw_ok [OF assms(1)])
  moreover have "of_int k \<le> (x + offset r) / IMAGE_WIDTH" "(x + offset r) / IMAGE_WIDTH < of_int k + 1"
    unfolding k_def by linarith+
  then have "IMAGE_WIDTH * of_int k - offset r \<le> x" "x < IMAGE_WIDTH * of_int k - offset r + IMAGE_WIDTH"
    by (simp_all add: field_simps)
  ultimately show ?thesis by simp
qed

text \<open>C10: with the images loaded, \<open>draw\<close> never throws and issues exactly the
  design's frame (spec section 4.2): the background, then for each slot \<open>k\<close> of
  \<open>-1 .. 3\<close> the image \<open>(k + startIndex) mod N\<close> at \<open>IMAGE_WIDTH \<cdot> k - offset\<close>,
  then the divider. The code's correction \<open>index + imagesLength\<close> for the negative
  slot and JavaScript's truncating \<open>%\<close> together compute the non-negative remainder.\<close>

theorem draw_spec:
  assumes "images \<noteq> []"
  shows "draw images r =
    (background @
     [DrawImage (images ! nat ((k + int (startIndex r)) mod int (length images)))
        (IMAGE_WIDTH * of_int k - offset r) 0 IMAGE_WIDTH IMAGE_HEIGHT. k \<leftarrow> [-1, 0, 1, 2, 3]]
     @ divider, None)"
  using draw_ok [OF assms, of r] by (simp add: slot_call_def)

theorem draw_spec_witness:
  "draw [0, 1, 2, 3, 4 :: nat] (init_reel\<lparr>startIndex := 4, offset := 10\<rparr>) =
    (background @
     [DrawImage 3 (- 138) 0 128 128, DrawImage 4 (- 10) 0 128 128, DrawImage 0 118 0 128 128,
      DrawImage 1 246 0 128 128, DrawImage 2 374 0 128 128] @ divider, None)"
  using draw_spec [of "[0, 1, 2, 3, 4 :: nat]" "init_reel\<lparr>startIndex := 4, offset := 10\<rparr>"]
  by (simp add: init_reel_def)

end
