(* ===== verification/Update.thy ===== *)
theory Update
  imports Draw
begin

text \<open>
  One animation frame: \<open>update\<close> of \<open>src/index.js\<close> (lines 67-118), the
  \<open>requestAnimationFrame\<close> callback. In the source's order it (1) ends the
  acceleration phase once the randomised duration has elapsed, (2) wraps \<open>offset\<close>
  past one image width and advances \<open>startIndex\<close>, (3) draws the frame, (4) computes
  the slot under the centre, (5) integrates \<open>speed\<close> into \<open>offset\<close> and applies
  the rule of the current phase, and (6) either requests the next frame or, once
  \<open>speed\<close> and \<open>offset\<close> are both zero, highlights and logs the winner.
  Each step is one definition; \<open>update\<close> composes them as the source does.
\<close>

text \<open>Lines 69-73.\<close>

definition accel_timeout :: "real \<Rightarrow> reel \<Rightarrow> reel" where
  "accel_timeout now r =
     (let deltaTime = now - startTime r in
      if deltaTime > of_int (accelerationDuration r) \<and> state r = ACCELERATION
      then r\<lparr>state := DECELERATION\<rparr> else r)"

text \<open>Lines 75-78. \<open>imagesLength\<close> is the length of the loaded image array.\<close>

definition wrap_offset :: "nat \<Rightarrow> reel \<Rightarrow> reel" where
  "wrap_offset imagesLength r =
     (if offset r > IMAGE_WIDTH
      then r\<lparr>startIndex := (startIndex r + 1) mod imagesLength,
             offset := js_fmod (offset r) IMAGE_WIDTH\<rparr>
      else r)"

text \<open>Line 83: \<open>Math.floor((center + offset) / IMAGE_WIDTH)\<close>.\<close>

definition center_index :: "real \<Rightarrow> int" where
  "center_index off = \<lfloor>(center + off) / IMAGE_WIDTH\<rfloor>"

text \<open>Lines 95-103: the restoring step of the return phase, on the offset alone.\<close>

definition return_step :: "int \<Rightarrow> real \<Rightarrow> real" where
  "return_step index off =
     (let distance = IMAGE_WIDTH * of_int (index - halfCount) - off;
          step = distance * RETURN_MULTIPLIER;
          off' = off + max (1 / 10) \<bar>step\<bar> * sgn step
      in if \<bar>off'\<bar> \<le> 1 / 10 then 0 else off')"

text \<open>Lines 85-104: integrate \<open>speed\<close>, then the rule of the phase.\<close>

definition motion_step :: "int \<Rightarrow> reel \<Rightarrow> reel" where
  "motion_step index r0 =
     (let r = r0\<lparr>offset := offset r0 + speed r0\<rparr> in
      case state r of
        ACCELERATION \<Rightarrow> r\<lparr>speed := speed r + ACCELERATION_STEP\<rparr>
      | DECELERATION \<Rightarrow>
          (let s = speed r * DECELERATION_MULTIPLIER in
           if s < 1 / 100 then r\<lparr>speed := 0, state := RETURN\<rparr> else r\<lparr>speed := s\<rparr>)
      | RETURN \<Rightarrow> r\<lparr>offset := return_step index (offset r)\<rparr>)"

text \<open>Lines 111-112: the highlight over the winning slot.\<close>

definition highlight :: "int \<Rightarrow> real \<Rightarrow> 'img ctx_call list" where
  "highlight index off =
     [SetFillStyle ''rgba(255, 0, 255, 0.2)'',
      FillRect (of_int index * IMAGE_WIDTH - off) 0 IMAGE_WIDTH IMAGE_HEIGHT]"

text \<open>Line 109: \<open>const winner = (index + startIndex) % imagesLength\<close>; the divisor is
  never 0 here, since \<open>draw\<close> has already thrown for an empty image list.\<close>

definition winner :: "int \<Rightarrow> nat \<Rightarrow> nat \<Rightarrow> int" where
  "winner index startIdx imagesLength = (index + int startIdx) smod int imagesLength"

text \<open>How a frame ends: an exception thrown by \<open>draw\<close>, a request for the next
  frame (line 107), or the settle event with the winner index logged (lines 109-116).\<close>

datatype outcome = Thrown js_error | Reschedule | Settled int

definition update :: "'img list \<Rightarrow> real \<Rightarrow> reel \<Rightarrow> reel \<times> 'img ctx_call list \<times> outcome" where
  "update images now r0 =
     (let imagesLength = length images;
          r1 = wrap_offset imagesLength (accel_timeout now r0);
          (calls, err) = draw images r1
      in case err of
           Some e \<Rightarrow> (r1, calls, Thrown e)
         | None \<Rightarrow>
             (let index = center_index (offset r1);
                  r2 = motion_step index r1
              in if speed r2 > 0 \<or> offset r2 \<noteq> 0 then (r2, calls, Reschedule)
                 else (r2, calls @ highlight index (offset r2),
                       Settled (winner index (startIndex r2) imagesLength))))"

lemma center_index_left: "0 \<le> off \<Longrightarrow> off < 64 \<Longrightarrow> center_index off = 1"
  by (simp add: center_index_def floor_eq_iff field_simps)

lemma center_index_right: "64 \<le> off \<Longrightarrow> off < 192 \<Longrightarrow> center_index off = 2"
  by (simp add: center_index_def floor_eq_iff field_simps)

lemma return_step_left:
  assumes "0 \<le> off" "off < 64"
  shows "return_step 1 off = 0 \<or> (1 / 10 < return_step 1 off \<and> return_step 1 off \<le> off - 1 / 10)"
proof (cases "off = 0")
  case True
  then show ?thesis by (simp add: return_step_def)
next
  case False
  with assms have pos: "0 < off" by simp
  have eq: "return_step 1 off =
      (let off' = off - max (1 / 10) (off / 10) in if \<bar>off'\<bar> \<le> 1 / 10 then 0 else off')"
    using pos by (simp add: return_step_def Let_def)
  show ?thesis
  proof (cases "1 \<le> off")
    case True
    then show ?thesis unfolding eq by (auto simp: Let_def max_def abs_if field_simps)
  next
    case False
    then show ?thesis unfolding eq using pos by (auto simp: Let_def max_def abs_if field_simps)
  qed
qed

lemma return_step_right:
  assumes "64 \<le> off" "off < 128"
  shows "off + 1 / 10 \<le> return_step 2 off \<and> return_step 2 off < 128 + 1 / 10"
proof -
  have eq: "return_step 2 off =
      (let off' = off + max (1 / 10) ((128 - off) / 10) in if \<bar>off'\<bar> \<le> 1 / 10 then 0 else off')"
    using assms by (simp add: return_step_def Let_def)
  show ?thesis unfolding eq using assms by (auto simp: Let_def max_def abs_if field_simps)
qed

lemma return_step_stuck: "return_step 2 128 = 128"
  by (simp add: return_step_def)

lemma update_no_error:
  assumes "images \<noteq> []"
  shows "update images now r =
    (let r1 = wrap_offset (length images) (accel_timeout now r);
         index = center_index (offset r1);
         r2 = motion_step index r1;
         go = (speed r2 > 0 \<or> offset r2 \<noteq> 0)
     in (r2, fst (draw images r1) @ (if go then [] else highlight index (offset r2)),
         if go then Reschedule
         else Settled (winner index (startIndex r2) (length images))))"
  using assms by (simp add: update_def draw_ok Let_def)

lemma update_empty:
  "update [] now r = (wrap_offset 0 (accel_timeout now r), background, Thrown TypeError)"
  by (simp add: update_def draw_empty)

lemma accel_timeout_other: "state r \<noteq> ACCELERATION \<Longrightarrow> accel_timeout now r = r"
  by (simp add: accel_timeout_def Let_def)

lemma wrap_offset_id: "offset r \<le> IMAGE_WIDTH \<Longrightarrow> wrap_offset n r = r"
  by (simp add: wrap_offset_def)

lemma motion_step_return:
  "state r = RETURN \<Longrightarrow> speed r = 0 \<Longrightarrow>
   motion_step index r = r\<lparr>offset := return_step index (offset r)\<rparr>"
  by (simp add: motion_step_def Let_def)

text \<open>A frame of the return phase, while the offset needs no wrap.\<close>

lemma update_return:
  assumes "images \<noteq> []" "state r = RETURN" "speed r = 0" "offset r \<le> IMAGE_WIDTH"
  defines "off' \<equiv> return_step (center_index (offset r)) (offset r)"
  shows "fst (update images now r) = r\<lparr>offset := off'\<rparr>"
    and "snd (snd (update images now r)) =
           (if off' \<noteq> 0 then Reschedule
            else Settled (winner (center_index (offset r)) (startIndex r) (length images)))"
  using assms
  by (simp_all add: update_no_error accel_timeout_other wrap_offset_id motion_step_return Let_def)

lemma return_step_left_small:
  assumes "0 \<le> off" "off < 1 / 10"
  shows "return_step 1 off = 0"
  using return_step_left [of off] assms by auto

lemma update_wrap_settles:
  assumes "images \<noteq> []" "state r = RETURN" "speed r = 0"
    and "IMAGE_WIDTH < offset r" "offset r < IMAGE_WIDTH + 1 / 10"
  shows "fst (update images now r) =
           r\<lparr>startIndex := (startIndex r + 1) mod length images, offset := 0\<rparr>"
    and "snd (snd (update images now r)) =
           Settled (int ((startIndex r + 2) mod length images))"
proof -
  let ?n = "length images"
  let ?x = "offset r - 128"
  have x: "0 < ?x" "?x < 1 / 10" using assms(4,5) by simp_all
  have w: "wrap_offset ?n r = r\<lparr>startIndex := (startIndex r + 1) mod ?n, offset := ?x\<rparr>"
    using assms(4,5) js_fmod_once [of 128 "offset r"] by (simp add: wrap_offset_def)
  have ci: "center_index ?x = 1" using x by (simp add: center_index_left)
  have rs: "return_step 1 ?x = 0" using x by (simp add: return_step_left_small)
  have win: "winner 1 ((startIndex r + 1) mod ?n) ?n = int ((startIndex r + 2) mod ?n)"
    using assms(1) by (simp add: winner_def smod_mod_positive zmod_int mod_add_right_eq)
  show "fst (update images now r) =
           r\<lparr>startIndex := (startIndex r + 1) mod length images, offset := 0\<rparr>"
    using assms(1-3) w ci rs
    by (simp add: update_no_error accel_timeout_other motion_step_return Let_def)
  show "snd (snd (update images now r)) = Settled (int ((startIndex r + 2) mod length images))"
    using assms(1-3) w ci rs win
    by (simp add: update_no_error accel_timeout_other motion_step_return Let_def)
qed

text \<open>C11: a frame of the acceleration phase before the duration has elapsed (and with
  no wrap due) moves the strip by the current speed, raises the speed by
  \<open>ACCELERATION_STEP\<close>, draws the unchanged state and requests the next frame.\<close>

theorem update_accelerating:
  assumes "images \<noteq> []" "state r = ACCELERATION"
    and "now - startTime r \<le> of_int (accelerationDuration r)"
    and "0 \<le> speed r" "offset r \<le> IMAGE_WIDTH"
  shows "update images now r =
           (r\<lparr>offset := offset r + speed r, speed := speed r + ACCELERATION_STEP\<rparr>,
            fst (draw images r), Reschedule)"
proof -
  have "accel_timeout now r = r" using assms(3) by (simp add: accel_timeout_def Let_def)
  moreover have "wrap_offset (length images) r = r" using assms(5) by (rule wrap_offset_id)
  ultimately show ?thesis
    using assms(1,2,4) by (simp add: update_no_error motion_step_def Let_def)
qed

text \<open>C12: a frame of the deceleration phase moves the strip by the current speed and
  multiplies the speed by \<open>DECELERATION_MULTIPLIER\<close>; once the product drops below
  \<open>0.01\<close> the speed is snapped to 0 and the phase becomes \<open>RETURN\<close>. The offset is
  then positive, so the loop always continues into the return phase.\<close>

theorem update_decelerating:
  assumes "images \<noteq> []" "state r = DECELERATION"
    and "0 < speed r" "0 \<le> offset r" "offset r \<le> IMAGE_WIDTH"
  shows "fst (update images now r) =
           (if speed r * DECELERATION_MULTIPLIER < 1 / 100
            then r\<lparr>offset := offset r + speed r, speed := 0, state := RETURN\<rparr>
            else r\<lparr>offset := offset r + speed r, speed := speed r * DECELERATION_MULTIPLIER\<rparr>)
         \<and> snd (snd (update images now r)) = Reschedule"
proof -
  have "accel_timeout now r = r" using assms(2) by (simp add: accel_timeout_other)
  moreover have "wrap_offset (length images) r = r" using assms(5) by (rule wrap_offset_id)
  ultimately show ?thesis
    using assms(1-4) by (simp add: update_no_error motion_step_def Let_def)
qed

text \<open>C13: a frame never moves the phase backwards in the order
  \<open>ACCELERATION < DECELERATION < RETURN\<close> of the codes of \<open>STATE\<close>: only a
  click re-enters \<open>ACCELERATION\<close>.\<close>

theorem update_phase_order:
  "STATE (state r) \<le> STATE (state (fst (update images now r)))"
proof -
  let ?r1 = "wrap_offset (length images) (accel_timeout now r)"
  have "STATE (state r) \<le> STATE (state ?r1)"
    by (cases "state r") (simp_all add: wrap_offset_def accel_timeout_def Let_def)
  moreover have "STATE (state ?r1) \<le> STATE (state (motion_step i ?r1))" for i
    by (cases "state ?r1") (simp_all add: motion_step_def Let_def)
  moreover have "fst (update images now r) = ?r1 \<or>
                 fst (update images now r) = motion_step (center_index (offset ?r1)) ?r1"
    by (simp add: update_def Let_def case_prod_beta split: option.splits)
  ultimately show ?thesis by (metis order_trans order_refl)
qed

lemma wrap_offset_drop:
  "IMAGE_WIDTH < offset r \<Longrightarrow>
   offset r - offset (wrap_offset n r) = IMAGE_WIDTH * of_int \<lfloor>offset r / IMAGE_WIDTH\<rfloor>"
  by (simp add: wrap_offset_def js_fmod_nonneg_eq)

text \<open>C14: the wrap of lines 75-78 advances \<open>startIndex\<close> by one and reduces the
  offset modulo \<open>IMAGE_WIDTH\<close>; it takes off exactly one image width only when the
  offset is below two widths. Beyond that the strip loses whole images that
  \<open>startIndex\<close> does not count.\<close>

theorem wrap_offset_one_width_iff:
  assumes "IMAGE_WIDTH < offset r"
  shows "startIndex (wrap_offset n r) = (startIndex r + 1) mod n \<and>
         (offset r - offset (wrap_offset n r) = IMAGE_WIDTH \<longleftrightarrow> offset r < 2 * IMAGE_WIDTH)"
proof -
  have q: "offset r - offset (wrap_offset n r) = 128 * of_int \<lfloor>offset r / 128\<rfloor>"
    using wrap_offset_drop [OF assms] by simp
  have "1 \<le> offset r / 128" using assms by simp
  then have "1 \<le> \<lfloor>offset r / 128\<rfloor>" by linarith
  moreover have "\<lfloor>offset r / 128\<rfloor> = 1 \<longleftrightarrow> offset r < 256"
    using assms by (simp add: floor_eq_iff)
  ultimately show ?thesis using assms q by (auto simp: wrap_offset_def)
qed


text \<open>Witnesses.\<close>

theorem update_accelerating_witness:
  "update [0, 1, 2, 3, 4 :: nat] 100
     (init_reel\<lparr>state := ACCELERATION, speed := 7, offset := 20, accelerationDuration := 500\<rparr>) =
   (init_reel\<lparr>state := ACCELERATION, speed := 8, offset := 27, accelerationDuration := 500\<rparr>,
    fst (draw [0, 1, 2, 3, 4 :: nat]
      (init_reel\<lparr>state := ACCELERATION, speed := 7, offset := 20, accelerationDuration := 500\<rparr>)),
    Reschedule)"
  using update_accelerating [of "[0, 1, 2, 3, 4 :: nat]"
      "init_reel\<lparr>state := ACCELERATION, speed := 7, offset := 20, accelerationDuration := 500\<rparr>" 100]
  by (simp add: init_reel_def)

theorem update_decelerating_witness:
  "fst (update [0, 1, 2, 3, 4 :: nat] 900
     (init_reel\<lparr>state := DECELERATION, speed := 1 / 100, offset := 20\<rparr>)) =
     init_reel\<lparr>offset := 2001 / 100\<rparr>
   \<and> snd (snd (update [0, 1, 2, 3, 4 :: nat] 900
     (init_reel\<lparr>state := DECELERATION, speed := 1 / 100, offset := 20\<rparr>))) = Reschedule"
  using update_decelerating [of "[0, 1, 2, 3, 4 :: nat]"
      "init_reel\<lparr>state := DECELERATION, speed := 1 / 100, offset := 20\<rparr>" 900]
  by (simp add: init_reel_def)

theorem wrap_offset_witness:
  "startIndex (wrap_offset 5 (init_reel\<lparr>startIndex := 4, offset := 300\<rparr>)) = 0
   \<and> offset (wrap_offset 5 (init_reel\<lparr>startIndex := 4, offset := 300\<rparr>)) = 44"
proof -
  have "startIndex (wrap_offset 5 (init_reel\<lparr>startIndex := 4, offset := 300\<rparr>)) = 0 \<and>
    (300 - offset (wrap_offset 5 (init_reel\<lparr>startIndex := 4, offset := 300\<rparr>)) = 128
       \<longleftrightarrow> (300::real) < 256)"
    using wrap_offset_one_width_iff [of "init_reel\<lparr>startIndex := 4, offset := 300\<rparr>" 5]
    by (simp add: init_reel_def)
  moreover have "offset (wrap_offset 5 (init_reel\<lparr>startIndex := 4, offset := 300\<rparr>)) = 44"
    by (simp add: wrap_offset_def init_reel_def js_fmod_nonneg_eq)
  ultimately show ?thesis by simp
qed

end
