(* ===== verification/Frames.thy ===== *)
theory Frames
  imports Update
begin

text \<open>
  The frame loop: \<open>update\<close> re-registers itself with \<open>requestAnimationFrame\<close>
  until it settles (lines 106-107 of \<open>src/index.js\<close>). \<open>run images ts r\<close> runs
  the chain of callbacks for the frame times \<open>ts\<close> (the successive values of
  \<open>performance.now()\<close>), stopping at the settle event or at an exception; running out
  of frame times leaves the loop \<open>Running\<close>. The list of frame times is the fuel: the
  theorems say how many frames are enough, and where no number of frames is.
  This theory proves the convergence of the return phase: from an offset left of the
  half-slot boundary the reel settles on the slot under the centre within
  \<open>\<lceil>10 \<cdot> offset\<rceil> + 1\<close> frames; from the right of it, it either settles on the next
  image or reaches the offset \<open>IMAGE_WIDTH\<close>, a fixed point of \<open>update\<close> from which
  it never settles.
\<close>

datatype run_end = Running | Won int | Crashed js_error

fun run :: "'img list \<Rightarrow> real list \<Rightarrow> reel \<Rightarrow> reel \<times> run_end" where
  "run images [] r = (r, Running)"
| "run images (t # ts) r =
     (case update images t r of
        (r', _, Reschedule) \<Rightarrow> run images ts r'
      | (r', _, Settled w) \<Rightarrow> (r', Won w)
      | (r', _, Thrown e) \<Rightarrow> (r', Crashed e))"

lemma run_Cons_Reschedule:
  "snd (snd (update images t r)) = Reschedule \<Longrightarrow>
   run images (t # ts) r = run images ts (fst (update images t r))"
  by (simp add: case_prod_beta)

lemma run_Cons_Settled:
  "snd (snd (update images t r)) = Settled w \<Longrightarrow>
   run images (t # ts) r = (fst (update images t r), Won w)"
  by (simp add: case_prod_beta)

lemma fuel_step:
  fixes a b :: real
  assumes "a \<le> b - 1" "0 < b" "nat \<lceil>b\<rceil> + c \<le> length (t # ts)"
  shows "nat \<lceil>a\<rceil> + c \<le> length ts"
proof -
  have "length (t # ts) = Suc (length ts)" by simp
  with ceiling_measure_drop [OF assms(1,2)] assms(3) show ?thesis by linarith
qed

text \<open>One frame of the return phase left of the boundary: it settles on the centre slot,
  or moves the offset at least \<open>0.1\<close> towards 0 without crossing it.\<close>

lemma run_return_left_frame:
  assumes "images \<noteq> []" "state r = RETURN" "speed r = 0" "0 \<le> offset r" "offset r < 64"
  defines "o' \<equiv> return_step 1 (offset r)"
  shows "(o' = 0 \<and> run images (t # ts) r =
            (r\<lparr>offset := 0\<rparr>, Won (int ((startIndex r + 1) mod length images))))
       \<or> (1 / 10 < o' \<and> o' \<le> offset r - 1 / 10 \<and>
            run images (t # ts) r = run images ts (r\<lparr>offset := o'\<rparr>))"
proof -
  have ci: "center_index (offset r) = 1" using assms(4,5) by (rule center_index_left)
  have le: "offset r \<le> IMAGE_WIDTH" using assms(5) by simp
  note fr = update_return [OF assms(1-3) le, of t, unfolded ci o'_def [symmetric]]
  have win: "winner 1 (startIndex r) (length images) = int ((startIndex r + 1) mod length images)"
    using assms(1) by (simp add: winner_def smod_mod_positive zmod_int add.commute)
  show ?thesis
  proof (cases "o' = 0")
    case True
    with fr win show ?thesis by (simp del: run.simps add: run_Cons_Settled)
  next
    case False
    with fr return_step_left [OF assms(4,5)] show ?thesis
      by (simp del: run.simps add: run_Cons_Reschedule o'_def)
  qed
qed

text \<open>One frame right of the boundary and short of \<open>IMAGE_WIDTH\<close>: the offset moves at
  least \<open>0.1\<close> towards \<open>IMAGE_WIDTH\<close> and overshoots it by less than \<open>0.1\<close>.\<close>

lemma run_return_right_frame:
  assumes "images \<noteq> []" "state r = RETURN" "speed r = 0"
    and "64 \<le> offset r" "offset r < IMAGE_WIDTH"
  defines "o' \<equiv> return_step 2 (offset r)"
  shows "offset r + 1 / 10 \<le> o' \<and> o' < IMAGE_WIDTH + 1 / 10 \<and>
         run images (t # ts) r = run images ts (r\<lparr>offset := o'\<rparr>)"
proof -
  have ci: "center_index (offset r) = 2" using assms(4,5) by (simp add: center_index_right)
  have le: "offset r \<le> IMAGE_WIDTH" using assms(5) by simp
  note fr = update_return [OF assms(1-3) le, of t, unfolded ci o'_def [symmetric]]
  have "offset r + 1 / 10 \<le> o' \<and> o' < IMAGE_WIDTH + 1 / 10"
    using return_step_right [of "offset r"] assms(4,5) by (simp add: o'_def)
  with fr assms(4) show ?thesis by (simp del: run.simps add: run_Cons_Reschedule)
qed

lemma return_left_run:
  assumes "images \<noteq> []" "state r = RETURN" "speed r = 0"
    and "0 \<le> offset r" "offset r < 64" "nat \<lceil>10 * offset r\<rceil> + 1 \<le> length ts"
  shows "run images ts r =
           (r\<lparr>offset := 0\<rparr>, Won (int ((startIndex r + 1) mod length images)))"
  using assms(2-6)
proof (induction ts arbitrary: r)
  case Nil
  then show ?case by simp
next
  case (Cons t ts)
  let ?o' = "return_step 1 (offset r)"
  from run_return_left_frame [OF assms(1) Cons.prems(1-4), of t ts] show ?case
  proof
    assume "?o' = 0 \<and> run images (t # ts) r =
              (r\<lparr>offset := 0\<rparr>, Won (int ((startIndex r + 1) mod length images)))"
    then show ?thesis by simp
  next
    assume o': "1 / 10 < ?o' \<and> ?o' \<le> offset r - 1 / 10 \<and>
                run images (t # ts) r = run images ts (r\<lparr>offset := ?o'\<rparr>)"
    have fuel: "nat \<lceil>10 * ?o'\<rceil> + 1 \<le> length ts"
    proof (rule fuel_step [of _ "10 * offset r" 1 t])
      show "10 * ?o' \<le> 10 * offset r - 1" using o' by linarith
      show "0 < 10 * offset r" using o' Cons.prems(3) by linarith
      show "nat \<lceil>10 * offset r\<rceil> + 1 \<le> length (t # ts)" by (rule Cons.prems(5))
    qed
    have "run images ts (r\<lparr>offset := ?o'\<rparr>) =
            (r\<lparr>offset := ?o'\<rparr>\<lparr>offset := 0\<rparr>,
             Won (int ((startIndex (r\<lparr>offset := ?o'\<rparr>) + 1) mod length images)))"
    proof (rule Cons.IH)
      show "state (r\<lparr>offset := ?o'\<rparr>) = RETURN" "speed (r\<lparr>offset := ?o'\<rparr>) = 0"
        using Cons.prems(1,2) by simp_all
      show "0 \<le> offset (r\<lparr>offset := ?o'\<rparr>)" "offset (r\<lparr>offset := ?o'\<rparr>) < 64"
        using o' Cons.prems(4) by simp_all
      show "nat \<lceil>10 * offset (r\<lparr>offset := ?o'\<rparr>)\<rceil> + 1 \<le> length ts" using fuel by simp
    qed
    with o' show ?thesis by (simp del: run.simps)
  qed
qed

text \<open>C2: in the return phase, from an offset in \<open>[0, 64)\<close> (left of the half-slot
  boundary), the reel settles within \<open>\<lceil>10 \<cdot> offset\<rceil> + 1\<close> frames, whatever the
  frame times, at offset 0 with the same \<open>startIndex\<close>, and the logged winner is the
  image of the centre slot 1, \<open>(startIndex + 1) mod N\<close>.\<close>

theorem return_left_settles:
  assumes "images \<noteq> []" "state r = RETURN" "speed r = 0"
    and "0 \<le> offset r" "offset r < 64" "nat \<lceil>10 * offset r\<rceil> + 1 \<le> length ts"
  shows "run images ts r =
           (r\<lparr>offset := 0\<rparr>, Won (int ((startIndex r + 1) mod length images)))"
  using assms by (rule return_left_run)

lemma run_fixed_at_width:
  assumes "images \<noteq> []" "state r = RETURN" "speed r = 0" "offset r = IMAGE_WIDTH"
  shows "run images ts r = (r, Running)"
proof (induction ts)
  case Nil
  then show ?case by simp
next
  case (Cons t ts)
  have le: "offset r \<le> IMAGE_WIDTH" using assms(4) by simp
  have ci: "center_index (offset r) = 2" using assms(4) by (simp add: center_index_right)
  note fr = update_return [OF assms(1-3) le, of t, unfolded ci]
  have "return_step 2 (offset r) = offset r" using assms(4) by (simp add: return_step_stuck)
  with fr have "fst (update images t r) = r" by simp
  moreover have "snd (snd (update images t r)) = Reschedule"
    using fr \<open>return_step 2 (offset r) = offset r\<close> assms(4) by simp
  ultimately
  show ?case using Cons.IH by (simp del: run.simps add: run_Cons_Reschedule)
qed

lemma run_wrap_settles:
  assumes "images \<noteq> []" "state r = RETURN" "speed r = 0"
    and "IMAGE_WIDTH < offset r" "offset r < IMAGE_WIDTH + 1 / 10"
  shows "run images (t # ts) r =
           (r\<lparr>startIndex := (startIndex r + 1) mod length images, offset := 0\<rparr>,
            Won (int ((startIndex r + 2) mod length images)))"
  using update_wrap_settles [OF assms, of t] by (simp del: run.simps add: run_Cons_Settled)

lemma return_right_run:
  assumes "images \<noteq> []" "state r = RETURN" "speed r = 0"
    and "64 \<le> offset r" "offset r \<le> IMAGE_WIDTH"
    and "nat \<lceil>10 * (IMAGE_WIDTH - offset r)\<rceil> + 2 \<le> length ts"
  shows "run images ts r =
           (r\<lparr>startIndex := (startIndex r + 1) mod length images, offset := 0\<rparr>,
            Won (int ((startIndex r + 2) mod length images)))
         \<or> run images ts r = (r\<lparr>offset := IMAGE_WIDTH\<rparr>, Running)"
  using assms(2-6)
proof (induction ts arbitrary: r)
  case Nil
  then show ?case by simp
next
  case (Cons t ts)
  let ?o' = "return_step 2 (offset r)"
  show ?case
  proof (cases "offset r = IMAGE_WIDTH")
    case True
    then have "r\<lparr>offset := IMAGE_WIDTH\<rparr> = r" by simp
    with run_fixed_at_width [OF assms(1) Cons.prems(1,2) True] show ?thesis by (simp del: run.simps)
  next
    case False
    with Cons.prems have lt: "offset r < IMAGE_WIDTH" by simp
    note fr = run_return_right_frame [OF assms(1) Cons.prems(1-3) lt, of t ts]
    show ?thesis
    proof (cases "?o' \<le> IMAGE_WIDTH")
      case True
      have fuel: "nat \<lceil>10 * (IMAGE_WIDTH - ?o')\<rceil> + 2 \<le> length ts"
      proof (rule fuel_step [of _ "10 * (IMAGE_WIDTH - offset r)" 2 t])
        show "10 * (IMAGE_WIDTH - ?o') \<le> 10 * (IMAGE_WIDTH - offset r) - 1" using fr [THEN conjunct1] by (simp add: right_diff_distrib)
        show "0 < 10 * (IMAGE_WIDTH - offset r)" using lt by simp
        show "nat \<lceil>10 * (IMAGE_WIDTH - offset r)\<rceil> + 2 \<le> length (t # ts)"
          by (rule Cons.prems(5))
      qed
      let ?r' = "r\<lparr>offset := ?o'\<rparr>"
      have "run images ts ?r' =
              (?r'\<lparr>startIndex := (startIndex ?r' + 1) mod length images, offset := 0\<rparr>,
               Won (int ((startIndex ?r' + 2) mod length images)))
            \<or> run images ts ?r' = (?r'\<lparr>offset := IMAGE_WIDTH\<rparr>, Running)"
      proof (rule Cons.IH)
        show "state ?r' = RETURN" "speed ?r' = 0" using Cons.prems(1,2) by simp_all
        show "64 \<le> offset ?r'" "offset ?r' \<le> IMAGE_WIDTH"
          using fr True Cons.prems(3) by simp_all
        show "nat \<lceil>10 * (IMAGE_WIDTH - offset ?r')\<rceil> + 2 \<le> length ts" using fuel by simp
      qed
      with fr show ?thesis by (simp del: run.simps)
    next
      case False
      from Cons.prems(5) obtain t2 ts2 where "ts = t2 # ts2" by (cases ts) auto
      with fr False run_wrap_settles [OF assms(1), of "r\<lparr>offset := ?o'\<rparr>" t2 ts2] Cons.prems
      show ?thesis by (simp del: run.simps)
    qed
  qed
qed

text \<open>C5: from an offset in \<open>[64, IMAGE_WIDTH]\<close> (right of the half-slot boundary)
  the return phase moves towards the next image: within \<open>\<lceil>10 \<cdot> (IMAGE_WIDTH - offset)\<rceil> + 2\<close>
  frames it either wraps and settles with \<open>startIndex\<close> advanced by one and winner
  \<open>(startIndex + 2) mod N\<close>, or it has landed exactly on the fixed point
  \<open>offset = IMAGE_WIDTH\<close> of C6 and is still running there.\<close>

theorem return_right_settles_or_sticks:
  assumes "images \<noteq> []" "state r = RETURN" "speed r = 0"
    and "64 \<le> offset r" "offset r \<le> IMAGE_WIDTH"
    and "nat \<lceil>10 * (IMAGE_WIDTH - offset r)\<rceil> + 2 \<le> length ts"
  shows "run images ts r =
           (r\<lparr>startIndex := (startIndex r + 1) mod length images, offset := 0\<rparr>,
            Won (int ((startIndex r + 2) mod length images)))
         \<or> run images ts r = (r\<lparr>offset := IMAGE_WIDTH\<rparr>, Running)"
  using assms by (rule return_right_run)

text \<open>C6: the return phase has a fixed point. At offset \<open>IMAGE_WIDTH\<close> the slot
  under the centre is 2, the distance to its aligned position is 0, \<open>Math.sign(0) = 0\<close>,
  so the step adds nothing; \<open>offset \<noteq> 0\<close> keeps the loop rescheduling: however many
  frames run, the reel never settles and never changes.\<close>

theorem return_stuck:
  assumes "images \<noteq> []" "state r = RETURN" "speed r = 0" "offset r = IMAGE_WIDTH"
  shows "run images ts r = (r, Running)"
  using assms by (rule run_fixed_at_width)

text \<open>The whole return phase, from any offset in \<open>[0, IMAGE_WIDTH + 0.1)\<close> (where the
  deceleration leaves the reel): 642 frames are enough to settle, or to reach the fixed
  point of C6. Left of the boundary it takes at most 641 frames, right of it at most
  642, and past \<open>IMAGE_WIDTH\<close> the first frame wraps and settles.\<close>

lemma fuel_bound:
  fixes x :: real
  assumes "x \<le> 640" "640 + c \<le> n"
  shows "nat \<lceil>x\<rceil> + c \<le> n"
proof -
  have "\<lceil>x\<rceil> \<le> 640" using assms(1) by (simp add: ceiling_le_iff)
  then have "nat \<lceil>x\<rceil> \<le> 640" by simp
  with assms(2) show ?thesis by linarith
qed

lemma return_phase_ends:
  assumes "images \<noteq> []" "state r = RETURN" "speed r = 0"
    and "0 \<le> offset r" "offset r < IMAGE_WIDTH + 1 / 10" "642 \<le> length ts"
  shows "(\<exists>r' w. run images ts r = (r', Won w)) \<or>
         (\<exists>r'. run images ts r = (r', Running) \<and> state r' = RETURN \<and> speed r' = 0 \<and>
               offset r' = IMAGE_WIDTH)"
proof -
  consider "offset r < 64" | "64 \<le> offset r" "offset r \<le> IMAGE_WIDTH" | "IMAGE_WIDTH < offset r"
    by linarith
  then show ?thesis
  proof cases
    case 1
    have "nat \<lceil>10 * offset r\<rceil> + 1 \<le> length ts"
      by (rule fuel_bound) (use 1 assms(6) in simp_all)
    with return_left_run [OF assms(1-4) 1] show ?thesis by blast
  next
    case 2
    have fuel: "nat \<lceil>10 * (IMAGE_WIDTH - offset r)\<rceil> + 2 \<le> length ts"
      by (rule fuel_bound) (use 2 assms(6) in simp_all)
    show ?thesis using return_right_run [OF assms(1-3) 2 fuel] assms(2,3) by auto
  next
    case 3
    from assms(6) obtain t ts' where "ts = t # ts'" by (cases ts) auto
    with run_wrap_settles [OF assms(1-3) 3 assms(5)] show ?thesis by blast
  qed
qed

text \<open>Witnesses, with the five images of \<open>imageUrls\<close> stood for by \<open>0..4\<close>.\<close>

theorem return_left_settles_witness:
  "run [0, 1, 2, 3, 4 :: nat] [0, 16, 32, 48, 64] (init_reel\<lparr>offset := 3 / 10\<rparr>) =
     (init_reel, Won 1)"
  using return_left_settles
    [of "[0, 1, 2, 3, 4 :: nat]" "init_reel\<lparr>offset := 3 / 10\<rparr>" "[0, 16, 32, 48, 64]"]
  by (simp add: init_reel_def del: run.simps)

theorem return_stuck_witness:
  "run [0, 1, 2, 3, 4 :: nat] [0, 16, 32] (init_reel\<lparr>offset := 1279 / 10\<rparr>) =
     (init_reel\<lparr>offset := 128\<rparr>, Running)"
proof -
  let ?r = "init_reel\<lparr>offset := 1279 / 10\<rparr>"
  have ci: "center_index (1279 / 10) = 2" by (simp add: center_index_right)
  have rs: "return_step 2 (1279 / 10) = 128" by (simp add: return_step_def)
  have "offset ?r \<le> IMAGE_WIDTH" by simp
  note fr = update_return [of "[0, 1, 2, 3, 4 :: nat]" ?r, OF _ _ _ this, of 0]
  then have "fst (update [0, 1, 2, 3, 4 :: nat] 0 ?r) = init_reel\<lparr>offset := 128\<rparr>"
    and "snd (snd (update [0, 1, 2, 3, 4 :: nat] 0 ?r)) = Reschedule"
    using ci rs by (simp_all add: init_reel_def)
  moreover have "run [0, 1, 2, 3, 4 :: nat] [16, 32] (init_reel\<lparr>offset := 128\<rparr>) =
                   (init_reel\<lparr>offset := 128\<rparr>, Running)"
    by (rule return_stuck) (simp_all add: init_reel_def)
  ultimately show ?thesis by (simp del: run.simps add: run_Cons_Reschedule)
qed

theorem return_right_witness:
  "run [0, 1, 2, 3, 4 :: nat] (replicate 282 0) (init_reel\<lparr>offset := 100\<rparr>) =
     (init_reel\<lparr>startIndex := 1, offset := 0\<rparr>, Won 2)
   \<or> run [0, 1, 2, 3, 4 :: nat] (replicate 282 0) (init_reel\<lparr>offset := 100\<rparr>) =
     (init_reel\<lparr>offset := 128\<rparr>, Running)"
  using return_right_settles_or_sticks
    [of "[0, 1, 2, 3, 4 :: nat]" "init_reel\<lparr>offset := 100\<rparr>" "replicate 282 0"]
  by (simp add: init_reel_def del: run.simps)

end
