(* ===== verification/Reel_Invariant.thy ===== *)
theory Reel_Invariant
  imports Update
begin

text \<open>
  The invariant of the simulation state between frames, and its preservation by every
  operation that writes the globals (\<open>update\<close> and the click listener). It says
  how the phase and the speed agree (the code keeps no separate "idle" phase: rest is
  \<open>RETURN\<close> with speed and offset 0) and that \<open>speed\<close> and \<open>offset\<close> never go
  negative. The settle analysis at the end derives from it where the reel stops: on the
  centre slot, with an offset of at most \<open>0.2\<close> before the last step. The last
  lemmas bound how far one frame carries the offset past one image width.
\<close>

definition reel_inv :: "reel \<Rightarrow> bool" where
  "reel_inv r \<longleftrightarrow>
     0 \<le> offset r \<and>
     (case state r of
        ACCELERATION \<Rightarrow> BASE_SPEED \<le> speed r
      | DECELERATION \<Rightarrow> 0 < speed r
      | RETURN \<Rightarrow> speed r = 0)"

text \<open>The state \<open>update\<close> draws and steps from: after the phase check and the wrap.\<close>

definition pre_step :: "nat \<Rightarrow> real \<Rightarrow> reel \<Rightarrow> reel" where
  "pre_step n now r = wrap_offset n (accel_timeout now r)"

lemma reel_inv_init: "reel_inv init_reel"
  by (simp add: reel_inv_def init_reel_def)

lemma reel_inv_speed_nonneg: "reel_inv r \<Longrightarrow> 0 \<le> speed r"
  by (auto simp: reel_inv_def split: phase.splits)

lemma return_step_left_zero_iff:
  assumes "0 \<le> off" "off < 64"
  shows "return_step 1 off = 0 \<longleftrightarrow> off \<le> 1 / 5"
proof -
  have eq: "return_step 1 off =
      (let off' = off - max (1 / 10) (off / 10) * sgn off in if \<bar>off'\<bar> \<le> 1 / 10 then 0 else off')"
    using assms by (simp add: return_step_def Let_def)
  show ?thesis unfolding eq using assms by (auto simp: Let_def max_def abs_if sgn_if field_simps)
qed

lemma return_step_nonneg:
  assumes "0 \<le> off" "off \<le> IMAGE_WIDTH"
  shows "0 \<le> return_step (center_index off) off"
proof (cases "off < 64")
  case True
  then show ?thesis
    using assms return_step_left [of off] by (auto simp: center_index_left)
next
  case False
  show ?thesis
  proof (cases "off = 128")
    case True
    then show ?thesis by (simp add: center_index_right return_step_stuck)
  next
    case False
    with \<open>\<not> off < 64\<close> assms show ?thesis
      using return_step_right [of off] by (simp add: center_index_right)
  qed
qed

lemma wrap_offset_range:
  assumes "0 \<le> offset r"
  shows "0 \<le> offset (wrap_offset n r) \<and> offset (wrap_offset n r) \<le> IMAGE_WIDTH"
  using assms js_fmod_range [of "offset r" IMAGE_WIDTH] by (simp add: wrap_offset_def)

lemma wrap_offset_keeps: "state (wrap_offset n r) = state r" "speed (wrap_offset n r) = speed r"
  by (simp_all add: wrap_offset_def)

lemma accel_timeout_inv: "reel_inv r \<Longrightarrow> reel_inv (accel_timeout now r)"
  by (auto simp: reel_inv_def accel_timeout_def Let_def)

lemma accel_timeout_keeps: "offset (accel_timeout now r) = offset r" "speed (accel_timeout now r) = speed r"
    "startIndex (accel_timeout now r) = startIndex r"
  by (simp_all add: accel_timeout_def Let_def)

lemma motion_step_inv:
  assumes "reel_inv r" "offset r \<le> IMAGE_WIDTH"
  shows "reel_inv (motion_step (center_index (offset r)) r)"
proof -
  have s: "0 \<le> speed r" using assms(1) by (rule reel_inv_speed_nonneg)
  show ?thesis
  proof (cases "state r")
    case ACCELERATION
    with assms s show ?thesis by (simp add: reel_inv_def motion_step_def Let_def)
  next
    case DECELERATION
    with assms s show ?thesis by (simp add: reel_inv_def motion_step_def Let_def)
  next
    case RETURN
    with assms return_step_nonneg [of "offset r"] show ?thesis
      by (simp add: reel_inv_def motion_step_def Let_def)
  qed
qed

lemma motion_step_startIndex: "startIndex (motion_step index r) = startIndex r"
  by (simp add: motion_step_def Let_def split: phase.splits)

lemma wrap_offset_inv:
  "reel_inv r \<Longrightarrow> reel_inv (wrap_offset n r) \<and> offset (wrap_offset n r) \<le> IMAGE_WIDTH"
  using wrap_offset_range [of r n]
  by (simp add: reel_inv_def wrap_offset_keeps split: phase.splits)

lemma pre_step_inv:
  "reel_inv r \<Longrightarrow> reel_inv (pre_step n now r) \<and> offset (pre_step n now r) \<le> IMAGE_WIDTH"
  unfolding pre_step_def by (intro wrap_offset_inv accel_timeout_inv)

lemma update_eq:
  fixes now :: real and r :: reel
  assumes "images \<noteq> []"
  defines "r1 \<equiv> pre_step (length images) now r"
  defines "r2 \<equiv> motion_step (center_index (offset r1)) r1"
  shows "fst (update images now r) = r2"
    and "snd (snd (update images now r)) =
           (if speed r2 > 0 \<or> offset r2 \<noteq> 0 then Reschedule
            else Settled (winner (center_index (offset r1)) (startIndex r2) (length images)))"
    and "snd (snd (update images now r)) \<noteq> Reschedule \<Longrightarrow>
           fst (snd (update images now r)) =
             fst (draw images r1) @ highlight (center_index (offset r1)) (offset r2)"
  using assms(1) by (simp_all add: update_no_error r1_def r2_def pre_step_def Let_def split: if_splits)

lemma update_calls:
  assumes "images \<noteq> []"
  shows "\<exists>cs. fst (snd (update images now r)) = fst (draw images (pre_step (length images) now r)) @ cs"
  using assms by (simp add: update_no_error pre_step_def Let_def)

lemma update_inv:
  assumes "images \<noteq> []" "reel_inv r"
  shows "reel_inv (fst (update images now r))"
  using motion_step_inv [of "pre_step (length images) now r"] pre_step_inv [OF assms(2)]
  by (simp add: update_eq [OF assms(1)])

lemma update_outcome:
  assumes "images \<noteq> []" "reel_inv r"
  shows "snd (snd (update images now r)) = Reschedule \<longleftrightarrow> \<not> resting (fst (update images now r))"
    and "snd (snd (update images now r)) \<noteq> Thrown e"
proof -
  have "0 \<le> speed (fst (update images now r))"
    using update_inv [OF assms] by (rule reel_inv_speed_nonneg)
  then show "snd (snd (update images now r)) = Reschedule \<longleftrightarrow> \<not> resting (fst (update images now r))"
    and "snd (snd (update images now r)) \<noteq> Thrown e"
    by (auto simp: update_eq [OF assms(1)] resting_def)
qed

text \<open>Where the reel settles: only in the return phase, from a pre-step offset of at most
  \<open>0.2\<close>, with the centre slot 1 under the divider.\<close>

lemma update_settles_at_centre:
  assumes "images \<noteq> []" "reel_inv r"
    and "snd (snd (update images now r)) \<noteq> Reschedule"
  defines "r1 \<equiv> pre_step (length images) now r"
  shows "state r1 = RETURN \<and> offset r1 \<le> 1 / 5 \<and> center_index (offset r1) = 1 \<and>
         fst (update images now r) = r1\<lparr>offset := 0\<rparr>"
proof -
  have i1: "reel_inv r1" "offset r1 \<le> IMAGE_WIDTH"
    using pre_step_inv [OF assms(2)] by (simp_all add: r1_def)
  let ?r2 = "motion_step (center_index (offset r1)) r1"
  have stop: "\<not> (speed ?r2 > 0 \<or> offset ?r2 \<noteq> 0)"
    using assms(3) by (simp add: update_eq [OF assms(1)] r1_def split: if_splits)
  have ret: "state r1 = RETURN"
  proof (cases "state r1")
    case ACCELERATION
    with i1 stop show ?thesis by (simp add: reel_inv_def motion_step_def Let_def)
  next
    case DECELERATION
    with i1 stop show ?thesis by (simp add: reel_inv_def motion_step_def Let_def split: if_splits)
  qed
  with i1 have sp: "speed r1 = 0" by (simp add: reel_inv_def)
  have o0: "0 \<le> offset r1" using i1 by (simp add: reel_inv_def)
  have rs0: "return_step (center_index (offset r1)) (offset r1) = 0"
    using stop ret sp by (simp add: motion_step_return)
  have lt: "offset r1 < 64"
  proof (rule ccontr)
    assume "\<not> offset r1 < 64"
    then have "0 < return_step (center_index (offset r1)) (offset r1)"
      using i1(2) return_step_right [of "offset r1"] return_step_stuck
      by (cases "offset r1 = 128") (auto simp: center_index_right)
    with rs0 show False by simp
  qed
  have ci: "center_index (offset r1) = 1" using o0 lt by (rule center_index_left)
  have "offset r1 \<le> 1 / 5" using rs0 o0 lt return_step_left_zero_iff [of "offset r1"] ci by simp
  moreover have "fst (update images now r) = r1\<lparr>offset := 0\<rparr>"
    using rs0 ret sp by (simp add: update_eq [OF assms(1)] r1_def [symmetric] motion_step_return)
  ultimately show ?thesis using ret ci by simp
qed

text \<open>The settling frame in full: the state it stepped from, the winner it logged and
  the canvas calls it made.\<close>

lemma update_settled_parts:
  assumes "images \<noteq> []" "reel_inv r" "update images now r = (r', cs, Settled k)"
  defines "r1 \<equiv> pre_step (length images) now r"
  shows "r' = r1\<lparr>offset := 0\<rparr> \<and> state r1 = RETURN \<and> speed r1 = 0 \<and>
         0 \<le> offset r1 \<and> offset r1 \<le> 1 / 5 \<and>
         k = winner 1 (startIndex r1) (length images) \<and>
         cs = fst (draw images r1) @ highlight 1 0"
proof -
  have nr: "snd (snd (update images now r)) \<noteq> Reschedule" using assms(3) by simp
  from update_settles_at_centre [OF assms(1,2) nr]
  have c: "state r1 = RETURN" "offset r1 \<le> 1 / 5" "center_index (offset r1) = 1"
    and r': "r' = r1\<lparr>offset := 0\<rparr>"
    using assms(3) by (simp_all add: r1_def)
  have i1: "reel_inv r1" using pre_step_inv [OF assms(2), of "length images" now] by (simp add: r1_def)
  then have o0: "0 \<le> offset r1" by (simp add: reel_inv_def)
  have sp: "speed r1 = 0" using i1 c(1) by (simp add: reel_inv_def)
  have m: "motion_step (center_index (offset r1)) r1 = r'"
    using r' c sp o0 return_step_left_zero_iff [of "offset r1"] by (simp add: motion_step_return)
  have "k = winner 1 (startIndex r1) (length images)"
    using update_eq(2) [OF assms(1), of now r] assms(3) c(3) m r'
    by (simp add: r1_def [symmetric] split: if_splits)
  moreover have "cs = fst (draw images r1) @ highlight 1 0"
    using update_eq(3) [OF assms(1), of now r] assms(3) c(3) m r'
    by (simp add: r1_def [symmetric])
  ultimately show ?thesis using r' c sp o0 by simp
qed


text \<open>How far a frame can carry the offset: the wrap leaves at most one width, and the
  motion adds at most one frame's travel, which the new speed bounds (the old speed is the
  new one plus \<open>ACCELERATION_STEP\<close>, or the new one over \<open>0.95\<close>); the return
  step overshoots the aligned position by at most its minimum step \<open>0.1\<close>.\<close>

lemma return_step_upper:
  assumes "0 \<le> off" "off \<le> IMAGE_WIDTH"
  shows "return_step (center_index off) off \<le> IMAGE_WIDTH + 1 / 10"
proof (cases "off < 64")
  case True
  then show ?thesis
    using assms return_step_left [of off] by (auto simp: center_index_left)
next
  case False
  show ?thesis
  proof (cases "off = 128")
    case True
    then show ?thesis by (simp add: center_index_right return_step_stuck)
  next
    case False
    with \<open>\<not> off < 64\<close> assms show ?thesis
      using return_step_right [of off] by (simp add: center_index_right)
  qed
qed

lemma motion_offset_bound:
  assumes "reel_inv r" "offset r \<le> IMAGE_WIDTH"
  defines "r' \<equiv> motion_step (center_index (offset r)) r"
  shows "offset r' \<le> IMAGE_WIDTH + (if state r' = RETURN then 1 / 10 else speed r' * 20 / 19)"
proof (cases "state r")
  case ACCELERATION
  with assms(1,2) show ?thesis
    unfolding r'_def by (simp add: reel_inv_def motion_step_def Let_def field_simps)
next
  case DECELERATION
  with assms(1,2) show ?thesis
    unfolding r'_def by (simp add: reel_inv_def motion_step_def Let_def field_simps)
next
  case RETURN
  with assms(1,2) return_step_upper [of "offset r"] show ?thesis
    unfolding r'_def by (simp add: reel_inv_def motion_step_def Let_def)
qed

lemma update_offset_bound:
  assumes "images \<noteq> []" "reel_inv r"
  shows "offset (fst (update images now r)) \<le>
           IMAGE_WIDTH + (if state (fst (update images now r)) = RETURN then 1 / 10
                          else speed (fst (update images now r)) * 20 / 19)"
  using pre_step_inv [OF assms(2), of "length images" now]
  by (simp only: update_eq(1) [OF assms(1)] motion_offset_bound)

end
