(* ===== verification/Host.thy ===== *)
theory Host
  imports Reel_Invariant
begin

text \<open>
  The browser's event loop around the reel: after \<open>init\<close> has loaded the images and
  drawn the first frame (line 147), two kinds of event interleave in any order, a click
  on the canvas (the listener of lines 134-145) and an animation frame that runs one
  pending \<open>requestAnimationFrame(update)\<close> callback. The world records the reel, the
  number of pending callbacks, the time of the last event (\<open>performance.now()\<close> never
  decreases), the canvas calls made so far and the winners logged. Events are a
  datatype; the host step is an inductive relation whose rules carry the guards of the
  environment (time is monotone, \<open>Math.random()\<close> is in \<open>[0, 1)\<close>, a frame runs only
  a pending callback). The invariant \<open>world_inv\<close> ties the pending callbacks to the
  resting condition: exactly one callback is pending while the reel is not at rest.
\<close>

record 'img world =
  sim :: reel
  pending :: nat
  clock :: real
  calls :: "'img ctx_call list"
  winners :: "int list"

definition init_world :: "'img list \<Rightarrow> 'img world" where
  "init_world images =
     \<lparr>sim = init_reel, pending = 0, clock = 0, calls = fst (draw images init_reel),
      winners = []\<rparr>"

definition click_world :: "real \<Rightarrow> real \<Rightarrow> 'img world \<Rightarrow> 'img world" where
  "click_world t rnd w =
     (case on_click t rnd (sim w) of
        (r', requested) \<Rightarrow>
          w\<lparr>sim := r', clock := t, pending := pending w + (if requested then 1 else 0)\<rparr>)"

definition frame_world :: "'img list \<Rightarrow> real \<Rightarrow> 'img world \<Rightarrow> 'img world" where
  "frame_world images t w =
     (case update images t (sim w) of
        (r', cs, out) \<Rightarrow>
          w\<lparr>sim := r', clock := t,
            pending := pending w - 1 + (if out = Reschedule then 1 else 0),
            calls := calls w @ cs,
            winners := winners w @ (case out of Settled k \<Rightarrow> [k] | _ \<Rightarrow> [])\<rparr>)"

text \<open>The listener itself (lines 134-145): it first cancels the event's default action
  (line 135), on every click, then runs the body \<open>click_world\<close>. Only the
  \<open>defaultPrevented\<close> flag of the DOM event is modelled.\<close>

record dom_event =
  defaultPrevented :: bool

definition click_listener :: "real \<Rightarrow> real \<Rightarrow> dom_event \<Rightarrow> 'img world \<Rightarrow> 'img world \<times> dom_event" where
  "click_listener t rnd event w =
     (let event' = event\<lparr>defaultPrevented := True\<rparr> in (click_world t rnd w, event'))"

datatype host_event = Click real real | Frame real

inductive host_step :: "'img list \<Rightarrow> 'img world \<Rightarrow> host_event \<Rightarrow> 'img world \<Rightarrow> bool"
  for images :: "'img list" where
  click: "clock w \<le> t \<Longrightarrow> 0 \<le> rnd \<Longrightarrow> rnd < 1 \<Longrightarrow>
    host_step images w (Click t rnd) (click_world t rnd w)"
| frame: "0 < pending w \<Longrightarrow> clock w \<le> t \<Longrightarrow>
    host_step images w (Frame t) (frame_world images t w)"

inductive reachable :: "'img list \<Rightarrow> 'img world \<Rightarrow> bool" for images :: "'img list" where
  init: "reachable images (init_world images)"
| step: "reachable images w \<Longrightarrow> host_step images w e w' \<Longrightarrow> reachable images w'"

definition world_inv :: "'img world \<Rightarrow> bool" where
  "world_inv w \<longleftrightarrow> reel_inv (sim w) \<and> pending w = (if resting (sim w) then 0 else 1)"

text \<open>The fixed point of the return phase (Frames, C6).\<close>

definition stuck :: "reel \<Rightarrow> bool" where
  "stuck r \<longleftrightarrow> state r = RETURN \<and> speed r = 0 \<and> offset r = IMAGE_WIDTH"

text \<open>The host loop as a function: \<open>host_exec\<close> runs one event when the environment's
  guards hold and answers \<open>None\<close> otherwise; \<open>exec_events\<close> runs a sequence of them.\<close>

definition host_exec :: "'img list \<Rightarrow> 'img world \<Rightarrow> host_event \<Rightarrow> 'img world option" where
  "host_exec images w e =
     (case e of
        Click t rnd \<Rightarrow>
          if clock w \<le> t \<and> 0 \<le> rnd \<and> rnd < 1 then Some (click_world t rnd w) else None
      | Frame t \<Rightarrow>
          if 0 < pending w \<and> clock w \<le> t then Some (frame_world images t w) else None)"

fun exec_events :: "'img list \<Rightarrow> host_event list \<Rightarrow> 'img world \<Rightarrow> 'img world option" where
  "exec_events images [] w = Some w"
| "exec_events images (e # es) w =
     (case host_exec images w e of None \<Rightarrow> None | Some w' \<Rightarrow> exec_events images es w')"

inductive_cases host_step_ClickE: "host_step images w (Click t rnd) w'"
inductive_cases host_step_FrameE: "host_step images w (Frame t) w'"

lemma world_inv_init: "world_inv (init_world images)"
  using reel_inv_init by (simp add: world_inv_def init_world_def resting_def init_reel_def)

lemma click_world_inv:
  assumes "world_inv w"
  shows "world_inv (click_world t rnd w)"
proof (cases "resting (sim w)")
  case True
  with assms show ?thesis
    by (simp add: world_inv_def click_world_def on_click_accept reel_inv_def resting_def)
next
  case False
  with assms show ?thesis by (simp add: world_inv_def click_world_def on_click_reject)
qed

lemma frame_world_inv:
  assumes "images \<noteq> []" "world_inv w" "0 < pending w"
  shows "world_inv (frame_world images t w)"
proof -
  have ri: "reel_inv (sim w)" and p1: "pending w = 1" using assms(2,3)
    by (auto simp: world_inv_def split: if_splits)
  note out = update_outcome [OF assms(1) ri, of t]
  have "reel_inv (fst (update images t (sim w)))" using assms(1) ri by (rule update_inv)
  with out p1 show ?thesis
    by (auto simp: world_inv_def frame_world_def case_prod_beta)
qed

lemma reachable_world_inv:
  assumes "images \<noteq> []" "reachable images w"
  shows "world_inv w"
  using assms(2)
proof (induction rule: reachable.induct)
  case init
  show ?case by (rule world_inv_init)
next
  case (step w e w')
  from step.hyps(2) step.IH show ?case
    by (cases e) (auto elim: host_step_ClickE host_step_FrameE
                       intro: click_world_inv frame_world_inv [OF assms(1)])
qed

text \<open>C4: spins never overlap. In every reachable world (images loaded) at most one
  \<open>update\<close> callback is pending, and one is pending exactly when the reel is not at
  rest: a frame loop runs while, and only while, a spin is in flight.\<close>

theorem spins_never_overlap:
  assumes "images \<noteq> []" "reachable images w"
  shows "pending w \<le> 1 \<and> (pending w = 0 \<longleftrightarrow> resting (sim w))"
  using reachable_world_inv [OF assms] by (auto simp: world_inv_def)

text \<open>C7: a click while a frame callback is pending (a spin in flight) changes nothing
  but the time: the reel, the pending callbacks, the canvas and the log are untouched.\<close>

theorem click_ignored_while_spinning:
  assumes "images \<noteq> []" "reachable images w" "0 < pending w"
  shows "click_world t rnd w = w\<lparr>clock := t\<rparr>"
proof -
  have "world_inv w" using assms(1,2) by (rule reachable_world_inv)
  with assms(3) have "\<not> resting (sim w)" by (auto simp: world_inv_def split: if_splits)
  then show ?thesis by (simp add: click_world_def on_click_reject)
qed

text \<open>A reachable world with a spin in flight: one click after start-up.\<close>

lemma reachable_first_click:
  "reachable images (click_world 0 0 (init_world images))"
  by (rule reachable.step [OF reachable.init], rule host_step.click)
     (simp_all add: init_world_def)

lemma first_click_pending: "pending (click_world 0 0 (init_world images)) = 1"
  by (simp add: click_world_def init_world_def on_click_def init_reel_def)

theorem spins_never_overlap_witness:
  "reachable [0, 1, 2, 3, 4 :: nat] (click_world 0 0 (init_world [0, 1, 2, 3, 4 :: nat]))
   \<and> pending (click_world 0 0 (init_world [0, 1, 2, 3, 4 :: nat])) = 1
   \<and> \<not> resting (sim (click_world 0 0 (init_world [0, 1, 2, 3, 4 :: nat])))"
  using spins_never_overlap [of "[0, 1, 2, 3, 4 :: nat]" "click_world 0 0 (init_world [0, 1, 2, 3, 4 :: nat])"]
    reachable_first_click [of "[0, 1, 2, 3, 4 :: nat]"] first_click_pending [of "[0, 1, 2, 3, 4 :: nat]"]
  by simp

theorem click_ignored_while_spinning_witness:
  "click_world 5 (1 / 3) (click_world 0 0 (init_world [0, 1, 2, 3, 4 :: nat])) =
     (click_world 0 0 (init_world [0, 1, 2, 3, 4 :: nat]))\<lparr>clock := 5\<rparr>"
  by (rule click_ignored_while_spinning [OF _ reachable_first_click]) (simp_all add: first_click_pending)

text \<open>C18: a world whose reel sits on the fixed point of C6 is frozen for good: every
  later event, click or frame, leaves the reel and the log of winners unchanged and one
  callback pending. The page keeps animating an unchanging frame and ignores all clicks.\<close>

theorem stuck_world_frozen:
  assumes "images \<noteq> []" "world_inv w" "stuck (sim w)" "host_step images w e w'"
  shows "sim w' = sim w \<and> pending w' = 1 \<and> winners w' = winners w"
proof -
  have s: "state (sim w) = RETURN" "speed (sim w) = 0" "offset (sim w) = IMAGE_WIDTH"
    using assms(3) by (simp_all add: stuck_def)
  have nr: "\<not> resting (sim w)" using s by (simp add: resting_def)
  with assms(2) have p: "pending w = 1" by (simp add: world_inv_def)
  have le: "offset (sim w) \<le> IMAGE_WIDTH" using s by simp
  have ci: "center_index (offset (sim w)) = 2" using s by (simp add: center_index_right)
  have rs: "return_step 2 (offset (sim w)) = offset (sim w)" using s by (simp add: return_step_stuck)
  note fr = update_return [OF assms(1) s(1,2) le, unfolded ci rs]
  from assms(4) show ?thesis
  proof (cases rule: host_step.cases)
    case (click t rnd)
    with nr p show ?thesis by (simp add: click_world_def on_click_reject)
  next
    case (frame t)
    have f1: "fst (update images t (sim w)) = sim w"
      and f2: "snd (snd (update images t (sim w))) = Reschedule"
      using fr s by simp_all
    obtain cs where "update images t (sim w) = (sim w, cs, Reschedule)"
      using f1 f2 by (cases "update images t (sim w)") auto
    with frame p show ?thesis by (simp add: frame_world_def)
  qed
qed

theorem stuck_world_frozen_witness:
  "sim (frame_world [0, 1, 2, 3, 4 :: nat] 1
     \<lparr>sim = init_reel\<lparr>offset := 128\<rparr>, pending = 1, clock = 0, calls = [], winners = []\<rparr>)
     = init_reel\<lparr>offset := 128\<rparr>
   \<and> pending (frame_world [0, 1, 2, 3, 4 :: nat] 1
     \<lparr>sim = init_reel\<lparr>offset := 128\<rparr>, pending = 1, clock = 0, calls = [], winners = []\<rparr>) = 1"
proof -
  let ?w = "\<lparr>sim = init_reel\<lparr>offset := 128\<rparr>, pending = 1, clock = 0, calls = [],
             winners = []\<rparr> :: nat world"
  have "world_inv ?w" by (simp add: world_inv_def reel_inv_def resting_def init_reel_def)
  moreover have "stuck (sim ?w)" by (simp add: stuck_def init_reel_def)
  moreover have "host_step [0, 1, 2, 3, 4 :: nat] ?w (Frame 1) (frame_world [0, 1, 2, 3, 4] 1 ?w)"
    by (rule host_step.frame) simp_all
  ultimately show ?thesis using stuck_world_frozen [of "[0, 1, 2, 3, 4 :: nat]" ?w] by simp
qed

lemma host_step_exec: "host_step images w e w' \<longleftrightarrow> host_exec images w e = Some w'"
  by (cases e) (auto simp: host_exec_def elim: host_step_ClickE host_step_FrameE
                     intro: host_step.intros split: if_splits)

lemma exec_events_append:
  "exec_events images es w = Some w' \<Longrightarrow> exec_events images (es @ fs) w = exec_events images fs w'"
  by (induction es arbitrary: w) (auto split: option.splits)

lemma exec_events_reachable:
  "reachable images w \<Longrightarrow> exec_events images es w = Some w' \<Longrightarrow> reachable images w'"
proof (induction es arbitrary: w)
  case Nil
  then show ?case by simp
next
  case (Cons e es)
  then obtain w1 where "host_exec images w e = Some w1" "exec_events images es w1 = Some w'"
    by (auto split: option.splits)
  with Cons.prems(1) show ?case
    by (intro Cons.IH [of w1]) (auto intro: reachable.step simp: host_step_exec)
qed


end
