(* ===== verification/Spin.thy ===== *)
theory Spin
  imports Frames Reel_Invariant
begin

text \<open>
  The spinning phases of the frame loop (\<open>update\<close>, lines 85-93 of
  \<open>src/index.js\<close>) run over many frames. During acceleration every frame adds
  \<open>ACCELERATION_STEP\<close> to \<open>speed\<close> for as long as the frame times stay within
  \<open>accelerationDuration\<close> of \<open>startTime\<close>; during deceleration every frame multiplies
  \<open>speed\<close> by \<open>DECELERATION_MULTIPLIER\<close> until it drops below \<open>1e-2\<close>, when the reel
  enters the return phase. \<open>decel_frames s\<close> counts the frames that takes from speed
  \<open>s\<close>; it is a terminating recursion, and it equals the least \<open>k\<close> with
  \<open>s \<cdot> 0.95\<^sup>k < 0.01\<close>. The frame past the deadline switches to deceleration and
  applies it at once (\<open>switch_frame\<close>). Since the speed is never capped, a long
  acceleration at a high frame rate pushes the offset past two widths, and the wrap then
  skips an image. \<open>spin_run\<close> composes the phases with the return phase of Frames
  into the run of a whole spin.
\<close>

function decel_frames :: "real \<Rightarrow> nat" where
  "decel_frames s =
     (if s * DECELERATION_MULTIPLIER < 1 / 100 then 1
      else Suc (decel_frames (s * DECELERATION_MULTIPLIER)))"
  by pat_completeness auto

termination
proof (relation "measure (\<lambda>s. nat \<lceil>2000 * s\<rceil>)")
  show "wf (measure (\<lambda>s. nat \<lceil>2000 * s\<rceil>))" by simp
next
  fix s :: real
  assume "\<not> s * DECELERATION_MULTIPLIER < 1 / 100"
  then have "1 / 100 \<le> s * (95 / 100)" by simp
  then show "(s * DECELERATION_MULTIPLIER, s) \<in> measure (\<lambda>s. nat \<lceil>2000 * s\<rceil>)"
    using ceiling_measure_drop [of "2000 * (s * (95 / 100))" "2000 * s"] by simp
qed

declare decel_frames.simps [simp del]

lemma decel_frames_pos: "0 < decel_frames s"
  by (subst decel_frames.simps) simp

lemma motion_step_decel:
  "state r = DECELERATION \<Longrightarrow>
   motion_step index r =
     (let s = speed r * DECELERATION_MULTIPLIER in
      if s < 1 / 100 then r\<lparr>offset := offset r + speed r, speed := 0, state := RETURN\<rparr>
      else r\<lparr>offset := offset r + speed r, speed := s\<rparr>)"
  by (simp add: motion_step_def Let_def)

text \<open>One frame of the deceleration phase: the frame reschedules, \<open>speed\<close> is
  multiplied by 0.95 or, below \<open>1e-2\<close>, reset with the switch to the return phase,
  and the offset stays positive.\<close>

lemma decel_frame:
  fixes t :: real
  assumes "images \<noteq> []" "state r = DECELERATION" "0 < speed r" "0 \<le> offset r"
  defines "r' \<equiv> fst (update images t r)"
  defines "s' \<equiv> speed r * DECELERATION_MULTIPLIER"
  shows "run images (t # ts) r = run images ts r'"
    and "state r' = (if s' < 1 / 100 then RETURN else DECELERATION)"
    and "speed r' = (if s' < 1 / 100 then 0 else s')"
    and "0 < offset r'" "offset r' \<le> IMAGE_WIDTH + speed r"
proof -
  let ?r1 = "pre_step (length images) t r"
  have r1: "state ?r1 = DECELERATION" "speed ?r1 = speed r" "0 \<le> offset ?r1"
    "offset ?r1 \<le> IMAGE_WIDTH"
    using assms(2) wrap_offset_range [OF assms(4), of "length images"]
    by (simp_all add: pre_step_def accel_timeout_other wrap_offset_keeps)
  have eq: "r' = motion_step (center_index (offset ?r1)) ?r1"
    unfolding r'_def by (rule update_eq(1) [OF assms(1)])
  show st: "state r' = (if s' < 1 / 100 then RETURN else DECELERATION)"
    and sp: "speed r' = (if s' < 1 / 100 then 0 else s')"
    and off: "0 < offset r'"
    and "offset r' \<le> IMAGE_WIDTH + speed r"
    using r1 assms(3) by (simp_all add: eq motion_step_decel s'_def Let_def)
  have "snd (snd (update images t r)) = Reschedule"
    using off by (simp add: update_eq(2) [OF assms(1)] eq [symmetric] r'_def)
  then show "run images (t # ts) r = run images ts r'"
    unfolding r'_def by (rule run_Cons_Reschedule)
qed

lemma decel_frames_reaches: "s * DECELERATION_MULTIPLIER ^ decel_frames s < 1 / 100"
proof (induction s rule: decel_frames.induct)
  case (1 s)
  show ?case
  proof (cases "s * DECELERATION_MULTIPLIER < 1 / 100")
    case True
    then show ?thesis by (simp add: decel_frames.simps [of s])
  next
    case False
    with "1.IH" show ?thesis by (simp add: decel_frames.simps [of s] mult.assoc)
  qed
qed

lemma decel_frames_minimal:
  "0 < k \<Longrightarrow> s * DECELERATION_MULTIPLIER ^ k < 1 / 100 \<Longrightarrow> decel_frames s \<le> k"
proof (induction s arbitrary: k rule: decel_frames.induct)
  case (1 s)
  show ?case
  proof (cases "s * DECELERATION_MULTIPLIER < 1 / 100")
    case True
    with "1.prems"(1) show ?thesis by (simp add: decel_frames.simps [of s])
  next
    case False
    then obtain k' where k: "k = Suc k'" "0 < k'"
      using "1.prems" by (cases k; cases "k - 1") auto
    have "decel_frames (s * DECELERATION_MULTIPLIER) \<le> k'"
      using "1.prems"(2) k by (intro "1.IH" [OF False]) (simp_all add: mult.assoc mult.commute)
    with False k(1) show ?thesis by (simp add: decel_frames.simps [of s])
  qed
qed

lemma run_append:
  "run images ts r = (r', Running) \<Longrightarrow> run images (ts @ us) r = run images us r'"
  by (induction ts arbitrary: r) (auto split: prod.splits outcome.splits)

text \<open>One frame of the acceleration phase before the deadline: the frame reschedules,
  the state stays \<open>ACCELERATION\<close>, \<open>speed\<close> grows by \<open>ACCELERATION_STEP\<close>, and
  the old speed is added to the wrapped offset.\<close>

lemma accel_frame:
  fixes t :: real
  assumes "images \<noteq> []" "state r = ACCELERATION" "0 \<le> speed r" "0 \<le> offset r"
    and "t - startTime r \<le> of_int (accelerationDuration r)"
  defines "r' \<equiv> fst (update images t r)"
  shows "run images (t # ts) r = run images ts r'"
    and "state r' = ACCELERATION" "speed r' = speed r + ACCELERATION_STEP"
    and "offset r' = offset (wrap_offset (length images) r) + speed r"
    and "startTime r' = startTime r" "accelerationDuration r' = accelerationDuration r"
proof -
  let ?r1 = "wrap_offset (length images) r"
  have pre: "pre_step (length images) t r = ?r1"
    using assms(5) by (simp add: pre_step_def accel_timeout_def Let_def)
  have r1: "state ?r1 = ACCELERATION" "speed ?r1 = speed r" "startTime ?r1 = startTime r"
    "accelerationDuration ?r1 = accelerationDuration r"
    using assms(2) by (simp_all add: wrap_offset_def)
  have eq: "r' = motion_step (center_index (offset ?r1)) ?r1"
    unfolding r'_def using update_eq(1) [OF assms(1), of t r] by (simp add: pre)
  show "state r' = ACCELERATION" and sp: "speed r' = speed r + ACCELERATION_STEP"
    and "offset r' = offset ?r1 + speed r" and "startTime r' = startTime r"
    and "accelerationDuration r' = accelerationDuration r"
    using r1 by (simp_all add: eq motion_step_def Let_def)
  have "snd (snd (update images t r)) = Reschedule"
    using sp assms(3) by (simp add: update_eq(2) [OF assms(1)] pre eq [symmetric] r'_def)
  then show "run images (t # ts) r = run images ts r'"
    unfolding r'_def by (rule run_Cons_Reschedule)
qed

lemma decel_run:
  assumes "images \<noteq> []" "state r = DECELERATION" "0 < speed r" "0 \<le> offset r"
    and "length ts = decel_frames (speed r)"
  shows "\<exists>r'. run images ts r = (r', Running) \<and> state r' = RETURN \<and> speed r' = 0 \<and> 0 < offset r' \<and>
              offset r' < IMAGE_WIDTH + 1 / 10"
  using assms(2-5)
proof (induction ts arbitrary: r)
  case Nil
  then show ?case using decel_frames_pos [of "speed r"] by simp
next
  case (Cons t ts)
  let ?r' = "fst (update images t r)"
  note f = decel_frame [OF assms(1) Cons.prems(1-3), of t]
  show ?case
  proof (cases "speed r * DECELERATION_MULTIPLIER < 1 / 100")
    case True
    then have "ts = []" using Cons.prems(4) by (simp add: decel_frames.simps [of "speed r"])
    moreover have "run images [t] r = (?r', Running)"
      using f(1) [of "[]"] by (simp del: run.simps add: run.simps(1))
    ultimately show ?thesis using True f(2-5) by (simp del: run.simps)
  next
    case False
    have sp: "speed ?r' = speed r * DECELERATION_MULTIPLIER" using f(3) False by simp
    have "\<exists>r''. run images ts ?r' = (r'', Running) \<and> state r'' = RETURN \<and> speed r'' = 0 \<and>
                0 < offset r'' \<and> offset r'' < IMAGE_WIDTH + 1 / 10"
    proof (rule Cons.IH)
      show "state ?r' = DECELERATION" using f(2) False by simp
      show "0 < speed ?r'" using False by (simp add: sp)
      show "0 \<le> offset ?r'" using f(4) by simp
      show "length ts = decel_frames (speed ?r')"
        using Cons.prems(4) False by (simp add: decel_frames.simps [of "speed r"] sp)
    qed
    with f(1) show ?thesis by (simp del: run.simps)
  qed
qed

text \<open>C19: the deceleration phase ends. From any positive speed, after exactly
  \<open>decel_frames speed\<close> frames, whatever their times, the reel is in the return phase
  with speed 0 and an offset in \<open>(0, IMAGE_WIDTH + 0.1)\<close> (the last decelerating frame
  moves it by less than \<open>1/95\<close> past a wrapped offset), and the loop is still running.\<close>

theorem decel_reaches_return:
  assumes "images \<noteq> []" "state r = DECELERATION" "0 < speed r" "0 \<le> offset r"
    and "length ts = decel_frames (speed r)"
  shows "\<exists>r'. run images ts r = (r', Running) \<and> state r' = RETURN \<and> speed r' = 0 \<and> 0 < offset r' \<and>
              offset r' < IMAGE_WIDTH + 1 / 10"
  using assms by (rule decel_run)

text \<open>C20: before it ends, the deceleration phase scales the speed geometrically:
  after \<open>k < decel_frames speed\<close> frames the reel still decelerates, at speed
  \<open>speed \<cdot> 0.95\<^sup>k\<close>.\<close>

theorem decel_speed_profile:
  assumes "images \<noteq> []" "state r = DECELERATION" "0 < speed r" "0 \<le> offset r"
    and "length ts < decel_frames (speed r)"
  shows "\<exists>r'. run images ts r = (r', Running) \<and> state r' = DECELERATION \<and>
              speed r' = speed r * DECELERATION_MULTIPLIER ^ length ts \<and> 0 \<le> offset r'"
  using assms(2-5)
proof (induction ts arbitrary: r)
  case Nil
  then show ?case by simp
next
  case (Cons t ts)
  let ?r' = "fst (update images t r)"
  note f = decel_frame [OF assms(1) Cons.prems(1-3), of t]
  have no: "\<not> speed r * DECELERATION_MULTIPLIER < 1 / 100"
    using Cons.prems(4) by (auto simp: decel_frames.simps [of "speed r"])
  have sp: "speed ?r' = speed r * DECELERATION_MULTIPLIER" using f(3) no by simp
  have "\<exists>r''. run images ts ?r' = (r'', Running) \<and> state r'' = DECELERATION \<and>
              speed r'' = speed ?r' * DECELERATION_MULTIPLIER ^ length ts \<and> 0 \<le> offset r''"
  proof (rule Cons.IH)
    show "state ?r' = DECELERATION" using f(2) no by simp
    show "0 < speed ?r'" using no by (simp add: sp)
    show "0 \<le> offset ?r'" using f(4) by simp
    show "length ts < decel_frames (speed ?r')"
      using Cons.prems(4) no by (simp add: decel_frames.simps [of "speed r"] sp)
  qed
  with f(1) show ?case by (simp del: run.simps add: sp mult.assoc)
qed


lemma click_started:
  assumes "resting r"
  shows "state (fst (on_click now rnd r)) = ACCELERATION"
    and "speed (fst (on_click now rnd r)) = BASE_SPEED"
    and "offset (fst (on_click now rnd r)) = 0"
    and "startTime (fst (on_click now rnd r)) = now"
    and "accelerationDuration (fst (on_click now rnd r)) =
           random_int ACCELERATION_DURATION_MIN ACCELERATION_DURATION_MAX rnd"
  using assms by (simp_all add: on_click_accept resting_def)

text \<open>The frame that ends the acceleration: its time is past the deadline, so
  \<open>accel_timeout\<close> switches to \<open>DECELERATION\<close> and the same frame already applies
  the deceleration rule.\<close>

lemma switch_frame:
  fixes t :: real
  assumes "images \<noteq> []" "state r = ACCELERATION" "0 < speed r" "0 \<le> offset r"
    and "of_int (accelerationDuration r) < t - startTime r"
    and "1 / 100 \<le> speed r * DECELERATION_MULTIPLIER"
  defines "r' \<equiv> fst (update images t r)"
  shows "run images (t # ts) r = run images ts r'"
    and "state r' = DECELERATION" "speed r' = speed r * DECELERATION_MULTIPLIER" "0 < offset r'"
proof -
  let ?d = "r\<lparr>state := DECELERATION\<rparr>"
  have "accel_timeout t r = accel_timeout t ?d"
    using assms(2,5) by (simp add: accel_timeout_def Let_def)
  then have u: "update images t r = update images t ?d" by (simp only: update_def)
  have d: "state ?d = DECELERATION" "0 < speed ?d" "0 \<le> offset ?d" using assms(3,4) by simp_all
  note f = decel_frame [OF assms(1) d, of t, folded u r'_def]
  have "run images (t # ts) r = run images (t # ts) ?d" by (simp only: run.simps u)
  then show "run images (t # ts) r = run images ts r'" using f(1) by simp
  show "state r' = DECELERATION" "speed r' = speed r * DECELERATION_MULTIPLIER" "0 < offset r'"
    using f(2-4) assms(6) by simp_all
qed

text \<open>The acceleration phase lasts as long as the frame times stay within
  \<open>accelerationDuration\<close> of \<open>startTime\<close> (line 71 tests a strict \<open>>\<close>): over
  such frames the loop keeps running, the reel keeps accelerating, and each frame adds
  \<open>ACCELERATION_STEP = 1\<close> to the speed, with no upper bound.\<close>

lemma accel_run:
  assumes "images \<noteq> []" "state r = ACCELERATION" "0 \<le> speed r" "0 \<le> offset r"
    and "\<forall>t\<in>set ts. t - startTime r \<le> of_int (accelerationDuration r)"
  shows "\<exists>r'. run images ts r = (r', Running) \<and> state r' = ACCELERATION \<and>
              speed r' = speed r + of_nat (length ts) \<and> 0 \<le> offset r' \<and>
              startTime r' = startTime r \<and> accelerationDuration r' = accelerationDuration r"
  using assms(2-5)
proof (induction ts arbitrary: r)
  case Nil
  then show ?case by simp
next
  case (Cons t ts)
  let ?r' = "fst (update images t r)"
  note f = accel_frame [OF assms(1) Cons.prems(1-3), of t]
  have "t - startTime r \<le> of_int (accelerationDuration r)" using Cons.prems(4) by simp
  note f = f [OF this]
  have "\<exists>r''. run images ts ?r' = (r'', Running) \<and> state r'' = ACCELERATION \<and>
              speed r'' = speed ?r' + of_nat (length ts) \<and> 0 \<le> offset r'' \<and>
              startTime r'' = startTime ?r' \<and> accelerationDuration r'' = accelerationDuration ?r'"
  proof (rule Cons.IH)
    show "state ?r' = ACCELERATION" by (rule f(2))
    show "0 \<le> speed ?r'" using f(3) Cons.prems(2) by simp
    show "0 \<le> offset ?r'"
      using f(4) Cons.prems(2) wrap_offset_range [OF Cons.prems(3), of "length images"] by simp
    show "\<forall>t\<in>set ts. t - startTime ?r' \<le> of_int (accelerationDuration ?r')"
      using Cons.prems(4) f(5,6) by simp
  qed
  then obtain r'' where h: "run images ts ?r' = (r'', Running)" "state r'' = ACCELERATION"
    "speed r'' = speed ?r' + of_nat (length ts)" "0 \<le> offset r''"
    "startTime r'' = startTime ?r'" "accelerationDuration r'' = accelerationDuration ?r'"
    by blast
  show ?case using h f(1,3,5,6) by (simp del: run.simps)
qed

text \<open>C23: the wrap of lines 75-78 drops only one image width per frame, while the
  acceleration of C22 is unbounded. Once \<open>speed\<close> exceeds two image widths within
  the acceleration window, a frame leaves an offset beyond \<open>2 \<cdot> IMAGE_WIDTH\<close>, and
  the next frame advances \<open>startIndex\<close> by one while the offset drops by at least two
  widths: the strip jumps over an image.\<close>

theorem accel_skips_image:
  assumes "images \<noteq> []" "state r = ACCELERATION" "0 \<le> speed r" "0 \<le> offset r"
    and "\<forall>u\<in>set (ts @ [t]). u - startTime r \<le> of_int (accelerationDuration r)"
    and "2 * IMAGE_WIDTH < speed r + of_nat (length ts)"
  shows "\<exists>r'. run images (ts @ [t]) r = (r', Running) \<and>
              startIndex (wrap_offset (length images) r') = (startIndex r' + 1) mod length images \<and>
              2 * IMAGE_WIDTH \<le> offset r' - offset (wrap_offset (length images) r')"
proof -
  obtain r1 where r1: "run images ts r = (r1, Running)" "state r1 = ACCELERATION"
    "speed r1 = speed r + of_nat (length ts)" "0 \<le> offset r1"
    "startTime r1 = startTime r" "accelerationDuration r1 = accelerationDuration r"
    using accel_run [OF assms(1-4)] assms(5) by auto
  have t: "t - startTime r1 \<le> of_int (accelerationDuration r1)" using assms(5) r1(5,6) by simp
  let ?r2 = "fst (update images t r1)"
  note f = accel_frame [OF assms(1) r1(2) _ r1(4) t]
  have sp: "0 \<le> speed r1" using r1(3) assms(3) by simp
  have "run images [t] r1 = (?r2, Running)"
    using f(1) [OF sp, of "[]"] by (simp del: run.simps add: run.simps(1))
  then have run2: "run images (ts @ [t]) r = (?r2, Running)"
    using run_append [OF r1(1), of "[t]"] by (simp del: run.simps)
  have "2 * IMAGE_WIDTH < offset ?r2"
    using f(4) [OF sp] r1(3) assms(6) wrap_offset_range [OF r1(4), of "length images"] by simp
  then have "2 \<le> \<lfloor>offset ?r2 / IMAGE_WIDTH\<rfloor>" by (simp add: le_floor_iff)
  then have "2 * IMAGE_WIDTH \<le> offset ?r2 - offset (wrap_offset (length images) ?r2)"
    using wrap_offset_drop [of ?r2] \<open>2 * IMAGE_WIDTH < offset ?r2\<close> by simp
  moreover have "startIndex (wrap_offset (length images) ?r2) = (startIndex ?r2 + 1) mod length images"
    using \<open>2 * IMAGE_WIDTH < offset ?r2\<close> by (simp add: wrap_offset_def)
  ultimately show ?thesis using run2 by blast
qed

text \<open>C22: a click on a resting reel starts an acceleration that lasts for every frame
  within the drawn duration \<open>random(500, 1500)\<close> of the click time: after \<open>k\<close> such
  frames the loop is running, the reel is accelerating and its speed is
  \<open>BASE_SPEED + k\<close>.\<close>

theorem click_accelerates:
  assumes "images \<noteq> []" "resting r"
    and "\<forall>t\<in>set ts. t - now \<le>
           of_int (random_int ACCELERATION_DURATION_MIN ACCELERATION_DURATION_MAX rnd)"
  shows "\<exists>r'. run images ts (fst (on_click now rnd r)) = (r', Running) \<and>
              state r' = ACCELERATION \<and> speed r' = BASE_SPEED + of_nat (length ts)"
proof -
  let ?r0 = "fst (on_click now rnd r)"
  note r0 = click_started [OF assms(2), of now rnd]
  have "\<exists>r'. run images ts ?r0 = (r', Running) \<and> state r' = ACCELERATION \<and>
              speed r' = speed ?r0 + of_nat (length ts) \<and> 0 \<le> offset r' \<and>
              startTime r' = startTime ?r0 \<and> accelerationDuration r' = accelerationDuration ?r0"
    by (rule accel_run [OF assms(1) r0(1)]) (use r0 assms(3) in simp_all)
  then show ?thesis using r0(2) by auto
qed

text \<open>The whole spin as a chain of frames: the acceleration run, the switch frame, the
  deceleration and the return phase composed (the root theory states it with
  \<open>stuck\<close>, and Host_Run lifts it to the host loop).\<close>

lemma spin_run:
  assumes "images \<noteq> []" "resting r"
    and "\<forall>u\<in>set ts1. u - now \<le>
           of_int (random_int ACCELERATION_DURATION_MIN ACCELERATION_DURATION_MAX rnd)"
    and "of_int (random_int ACCELERATION_DURATION_MIN ACCELERATION_DURATION_MAX rnd) < t - now"
    and "decel_frames ((BASE_SPEED + of_nat (length ts1)) * DECELERATION_MULTIPLIER) + 642
           \<le> length ts2"
  shows "(\<exists>r' w. run images (ts1 @ t # ts2) (fst (on_click now rnd r)) = (r', Won w)) \<or>
         (\<exists>r'. run images (ts1 @ t # ts2) (fst (on_click now rnd r)) = (r', Running) \<and>
               state r' = RETURN \<and> speed r' = 0 \<and> offset r' = IMAGE_WIDTH)"
proof -
  let ?r0 = "fst (on_click now rnd r)"
  note r0 = click_started [OF assms(2), of now rnd]
  obtain r1 where r1: "run images ts1 ?r0 = (r1, Running)" "state r1 = ACCELERATION"
    "speed r1 = BASE_SPEED + of_nat (length ts1)" "0 \<le> offset r1"
    "startTime r1 = now"
    "accelerationDuration r1 = random_int ACCELERATION_DURATION_MIN ACCELERATION_DURATION_MAX rnd"
    using accel_run [OF assms(1) r0(1)] r0 assms(3) by auto
  let ?r2 = "fst (update images t r1)"
  have sw: "0 < speed r1" "of_int (accelerationDuration r1) < t - startTime r1"
    "1 / 100 \<le> speed r1 * DECELERATION_MULTIPLIER"
    using r1(3,5,6) assms(4) by simp_all
  note f = switch_frame [OF assms(1) r1(2) sw(1) r1(4) sw(2,3)]
  define D where "D = decel_frames (speed ?r2)"
  have "speed ?r2 = (BASE_SPEED + of_nat (length ts1)) * DECELERATION_MULTIPLIER"
    using f(3) r1(3) by simp
  then have D: "D + 642 \<le> length ts2" using assms(5) by (simp only: D_def)
  obtain r3 where r3: "run images (take D ts2) ?r2 = (r3, Running)" "state r3 = RETURN"
    "speed r3 = 0" "0 < offset r3" "offset r3 < IMAGE_WIDTH + 1 / 10"
  proof -
    have "0 < speed ?r2" using f(3) sw(3) by simp
    moreover have "0 \<le> offset ?r2" using f(4) by simp
    moreover have "length (take D ts2) = decel_frames (speed ?r2)" using D by (simp add: D_def)
    ultimately show ?thesis using that decel_run [OF assms(1) f(2)] by blast
  qed
  have "642 \<le> length (drop D ts2)" using D by simp
  note ret = return_phase_ends [OF assms(1) r3(2,3) less_imp_le [OF r3(4)] r3(5) this]
  have "run images (ts1 @ t # ts2) ?r0 = run images (drop D ts2) r3"
    using run_append [OF r1(1), of "t # ts2"] f(1) run_append [OF r3(1), of "drop D ts2"]
    by simp
  with ret show ?thesis by auto
qed

theorem decel_reaches_return_witness:
  "\<exists>r'. run [0, 1, 2, 3, 4 :: nat] [0, 0, 0]
            (init_reel\<lparr>state := DECELERATION, speed := 1 / 90, offset := 10\<rparr>) = (r', Running) \<and>
        state r' = RETURN \<and> speed r' = 0 \<and> 0 < offset r' \<and> offset r' < IMAGE_WIDTH + 1 / 10"
  using decel_reaches_return [of "[0, 1, 2, 3, 4 :: nat]"
      "init_reel\<lparr>state := DECELERATION, speed := 1 / 90, offset := 10\<rparr>" "[0, 0, 0]"]
  by (simp del: run.simps add: decel_frames.simps init_reel_def)

theorem decel_speed_profile_witness:
  "\<exists>r'. run [0, 1, 2, 3, 4 :: nat] [0, 0]
            (init_reel\<lparr>state := DECELERATION, speed := 1 / 90, offset := 10\<rparr>) = (r', Running) \<and>
        state r' = DECELERATION \<and> speed r' = 361 / 36000 \<and> 0 \<le> offset r'"
  using decel_speed_profile [of "[0, 1, 2, 3, 4 :: nat]"
      "init_reel\<lparr>state := DECELERATION, speed := 1 / 90, offset := 10\<rparr>" "[0, 0]"]
  by (simp del: run.simps add: decel_frames.simps init_reel_def)

theorem click_accelerates_witness:
  "\<exists>r'. run [0, 1, 2, 3, 4 :: nat] [16, 33] (fst (on_click 0 0 init_reel)) = (r', Running) \<and>
        state r' = ACCELERATION \<and> speed r' = 7"
  using click_accelerates [of "[0, 1, 2, 3, 4 :: nat]" init_reel "[16, 33]" 0 0]
  by (simp del: run.simps add: resting_def init_reel_def random_int_def)

text \<open>At 240 frames per second (a frame every \<open>25/6\<close> ms) and the longest acceleration
  window (\<open>Math.random()\<close> near 1 draws 1500 ms), the 253rd frame after the click
  leaves an offset beyond two image widths.\<close>

theorem accel_skips_image_witness:
  "\<exists>r'. run [0, 1, 2, 3, 4 :: nat] (map (\<lambda>j. real j * 25 / 6) [1..<254])
            (fst (on_click 0 (9995 / 10000) init_reel)) = (r', Running) \<and>
        startIndex (wrap_offset 5 r') = (startIndex r' + 1) mod 5 \<and>
        2 * IMAGE_WIDTH \<le> offset r' - offset (wrap_offset 5 r')"
proof -
  let ?r = "fst (on_click 0 (9995 / 10000) init_reel)"
  let ?f = "\<lambda>j :: nat. real j * 25 / 6"
  have r: "state ?r = ACCELERATION" "0 \<le> speed ?r" "0 \<le> offset ?r" "startTime ?r = 0"
    "accelerationDuration ?r = 1500" "speed ?r = 5"
    by (simp_all add: on_click_def init_reel_def random_int_def)
  have b: "?f j \<le> 1500" if "j < 254" for j
  proof -
    from that have "real j \<le> 254" by simp
    then show ?thesis by simp
  qed
  have fr: "\<forall>u\<in>set (map ?f [1..<253] @ [?f 253]). u - startTime ?r \<le> of_int (accelerationDuration ?r)"
    using b unfolding r(4,5) by auto
  have len: "2 * IMAGE_WIDTH < speed ?r + of_nat (length (map ?f [1..<253]))"
    using r(6) by simp
  have split: "map ?f [1..<254] = map ?f [1..<253] @ [?f 253]"
    using upt_Suc_append [of 1 253] by simp
  have n: "length [0, 1, 2, 3, 4 :: nat] = 5" by simp
  show ?thesis
    using accel_skips_image [OF _ r(1-3) fr len, of "[0, 1, 2, 3, 4 :: nat]", unfolded n] split
    by (simp del: run.simps)
qed

end
