(* ===== verification/Position.thy ===== *)
theory Position
  imports Reel_Invariant
begin

text \<open>
  The reel as a circle. With \<open>N\<close> images of width \<open>IMAGE_WIDTH\<close>, the pair
  (\<open>startIndex\<close>, \<open>offset\<close>) of the globals of lines 30 and 33 stands for the point
  \<open>startIndex \<cdot> IMAGE_WIDTH + offset\<close> of a strip of circumference
  \<open>N \<cdot> IMAGE_WIDTH\<close>; \<open>reel_pos\<close> is that point as a fraction of a turn, in
  \<open>[0, 1)\<close>. The spec's conservation rule (startIndex advances times the width plus
  the offset is the distance integrated from \<open>speed\<close>) is the refinement of a circle
  turned by \<open>speed\<close> each frame by the concrete \<open>update\<close>. \<open>pos_decode\<close> reads a
  position back as the normal pair with \<open>offset\<close> in \<open>[0, IMAGE_WIDTH)\<close>. The
  renderer refines the circle too: the image \<open>draw\<close> shows in a pixel column is a
  function of the position alone.
\<close>

definition reel_pos :: "nat \<Rightarrow> reel \<Rightarrow> real" where
  "reel_pos n r =
     frac ((of_nat (startIndex r) * IMAGE_WIDTH + offset r) / (of_nat n * IMAGE_WIDTH))"

definition pos_decode :: "nat \<Rightarrow> real \<Rightarrow> nat \<times> real" where
  "pos_decode n p = (nat \<lfloor>p * of_nat n\<rfloor>, frac (p * of_nat n) * IMAGE_WIDTH)"

lemma real_mod_nat: "real (a mod n) = real a - real n * real (a div n)"
proof -
  have "real (a div n * n + a mod n) = real a" by (simp only: div_mult_mod_eq)
  then have "real (a div n) * real n + real (a mod n) = real a"
    by (simp only: of_nat_add of_nat_mult)
  then show ?thesis by (simp add: algebra_simps)
qed

text \<open>A wrap below two widths moves the strip by one image and the offset back by one
  width: the point on the circle does not move.\<close>

lemma wrap_offset_pos:
  assumes "0 < n" "offset r < 2 * IMAGE_WIDTH"
  shows "reel_pos n (wrap_offset n r) = reel_pos n r"
proof (cases "IMAGE_WIDTH < offset r")
  case False
  then show ?thesis by (simp add: wrap_offset_def)
next
  case True
  have fl: "\<lfloor>offset r / IMAGE_WIDTH\<rfloor> = 1" using True assms(2) by (simp add: floor_eq_iff)
  have off: "offset (wrap_offset n r) = offset r - IMAGE_WIDTH"
    using wrap_offset_drop [OF True, of n] fl by simp
  have si: "startIndex (wrap_offset n r) = (startIndex r + 1) mod n"
    using True by (simp add: wrap_offset_def)
  let ?k = "(startIndex r + 1) div n"
  have "(of_nat (startIndex (wrap_offset n r)) * IMAGE_WIDTH + offset (wrap_offset n r)) /
          (of_nat n * IMAGE_WIDTH) =
        (of_nat (startIndex r) * IMAGE_WIDTH + offset r) / (of_nat n * IMAGE_WIDTH) + of_int (- int ?k)"
    using assms(1) unfolding off si real_mod_nat by (simp add: field_simps)
  then show ?thesis unfolding reel_pos_def by (simp only: frac_add_of_int_right)
qed

lemma motion_step_spinning:
  "state r \<noteq> RETURN \<Longrightarrow>
   offset (motion_step index r) = offset r + speed r \<and> startIndex (motion_step index r) = startIndex r"
  by (cases "state r") (simp_all add: motion_step_def Let_def)

lemma reel_pos_shift:
  "frac ((of_nat si * IMAGE_WIDTH + (off + d)) / (of_nat n * IMAGE_WIDTH)) =
   frac (frac ((of_nat si * IMAGE_WIDTH + off) / (of_nat n * IMAGE_WIDTH)) +
         d / (of_nat n * IMAGE_WIDTH))"
  by (simp only: frac_add_simps(1) add.assoc [symmetric] add_divide_distrib)

text \<open>C24: refinement of the spinning frame. While the reel accelerates or decelerates
  and a frame starts below two image widths, \<open>update\<close> turns the circle by exactly
  \<open>speed\<close>: the position after the frame is the position before it plus
  \<open>speed / (N \<cdot> IMAGE_WIDTH)\<close>, modulo one turn. This is the spec's conservation rule
  for one frame; C23 shows a reachable frame where its hypothesis fails.\<close>

theorem frame_rotates_reel:
  assumes "images \<noteq> []" "state r \<noteq> RETURN" "offset r < 2 * IMAGE_WIDTH"
  defines "n \<equiv> length images"
  shows "reel_pos n (fst (update images now r)) =
           frac (reel_pos n r + speed r / (of_nat n * IMAGE_WIDTH))"
proof -
  let ?a = "accel_timeout now r"
  let ?r1 = "pre_step n now r"
  have n: "0 < n" using assms(1) by (simp add: n_def)
  have a: "state ?a \<noteq> RETURN" using assms(2) by (simp add: accel_timeout_def Let_def)
  have "reel_pos n ?r1 = reel_pos n ?a"
    unfolding pre_step_def by (rule wrap_offset_pos [OF n]) (use assms(3) in \<open>simp add: accel_timeout_keeps\<close>)
  also have "reel_pos n ?a = reel_pos n r" by (simp add: reel_pos_def accel_timeout_keeps)
  finally have p1: "reel_pos n ?r1 = reel_pos n r" .
  have r1: "state ?r1 \<noteq> RETURN" "speed ?r1 = speed r"
    using a by (simp_all add: pre_step_def wrap_offset_keeps accel_timeout_keeps)
  have "fst (update images now r) = motion_step (center_index (offset ?r1)) ?r1"
    unfolding n_def by (rule update_eq(1) [OF assms(1)])
  then have m: "offset (fst (update images now r)) = offset ?r1 + speed r"
    "startIndex (fst (update images now r)) = startIndex ?r1"
    using motion_step_spinning [OF r1(1)] r1(2) by simp_all
  have "reel_pos n (fst (update images now r)) = frac (reel_pos n ?r1 + speed r / (of_nat n * IMAGE_WIDTH))"
    unfolding reel_pos_def m by (rule reel_pos_shift)
  then show ?thesis by (simp only: p1)
qed


theorem frame_rotates_reel_witness:
  "reel_pos 5 (fst (update [0, 1, 2, 3, 4 :: nat] 100
     (init_reel\<lparr>state := ACCELERATION, speed := 20, offset := 120, startIndex := 4,
                 accelerationDuration := 500\<rparr>))) = 3 / 160"
  using frame_rotates_reel [of "[0, 1, 2, 3, 4 :: nat]"
      "init_reel\<lparr>state := ACCELERATION, speed := 20, offset := 120, startIndex := 4,
                  accelerationDuration := 500\<rparr>" 100]
  by (simp add: reel_pos_def init_reel_def frac_def)


lemma column_slot_pos:
  fixes x :: real
  assumes "0 < n"
  shows "(\<lfloor>(x + offset r) / IMAGE_WIDTH\<rfloor> + int (startIndex r)) mod int n =
         \<lfloor>x / IMAGE_WIDTH + reel_pos n r * of_nat n\<rfloor> mod int n"
proof -
  let ?q = "(of_nat (startIndex r) * IMAGE_WIDTH + offset r) / (of_nat n * IMAGE_WIDTH)"
  let ?a = "\<lfloor>(x + offset r) / IMAGE_WIDTH\<rfloor> + int (startIndex r)"
  have e: "x / IMAGE_WIDTH + reel_pos n r * of_nat n =
             (x + offset r) / IMAGE_WIDTH + of_int (int (startIndex r) + int n * (- \<lfloor>?q\<rfloor>))"
    using assms by (simp add: reel_pos_def frac_def field_simps)
  have "\<lfloor>x / IMAGE_WIDTH + reel_pos n r * of_nat n\<rfloor> =
          \<lfloor>(x + offset r) / IMAGE_WIDTH\<rfloor> + (int (startIndex r) + int n * (- \<lfloor>?q\<rfloor>))"
    unfolding e by (simp only: floor_add_int)
  also have "\<dots> = ?a + int n * (- \<lfloor>?q\<rfloor>)" by (simp only: add.assoc)
  finally show ?thesis by (simp only: mod_mult_self2)
qed



end
