(* ===== verification/Winner_Log.thy ===== *)
theory Winner_Log
  imports Host
begin

text \<open>
  The console output of the settle event (lines 109-116 of \<open>src/index.js\<close>): a
  group \<open>Winner\<close> with the winner index and \<open>imageUrls[winner]\<close>, the URL of the
  winning image (lines 21-27), or \<open>undefined\<close> if the index is outside the array.
  The values passed to \<open>console.log\<close> are a datatype of JavaScript values;
  \<open>console_of\<close> is everything a world has logged, in order, one group per logged
  winner. The loading messages of \<open>init\<close> (lines 123-132) are not modelled.
\<close>

definition imageUrls :: "string list" where
  "imageUrls =
    [''https://sun9-54.userapi.com/impg/OELoFrv6ScejF51Um0yVxpMkrwhLmRus36GIiA/IvNZhsWRzzM.jpg?size=180x238&quality=96&sign=442f1587ea2ca91fbaf78fb265d62418&type=album'',
     ''https://sun9-63.userapi.com/impg/EZJ9J5eN1D8LRFGZln5B8wQ7ddtoGwt_dHFerA/oG-_YKgA-zk.jpg?size=212x231&quality=96&sign=97aec432e5c14108cb2742b277c08e8e&type=album'',
     ''https://sun9-67.userapi.com/impg/tHva65TTOPiK35l9mwB-fDd2MFTBqT5TnCMFmA/txezb8XsCTY.jpg?size=180x213&quality=96&sign=ac83718a717176ec6dff98e3daf48a93&type=album'',
     ''https://sun9-71.userapi.com/impg/tLDcz5uYRmtBN9lxxdMsioZCRpUVWTAItC4_hQ/8dRX31ImxOc.jpg?size=159x182&quality=96&sign=9196a5b20aac98bf609bd7b303244a65&type=album'',
     ''https://sun9-58.userapi.com/impg/7YUqt0Fd6NpWTAZ_o1dw6EHnUmVxINrP1a-o9A/VUEBjRuh7XY.jpg?size=111x143&quality=96&sign=0aefcb6c6204d46edfd1a431919ad109&type=album'']"

datatype js_value = JNumber int | JString string | JUndefined

datatype console_entry = GroupStart string | LogLine string js_value | GroupEnd

definition winner_log :: "int \<Rightarrow> console_entry list" where
  "winner_log k =
     [GroupStart ''Winner'',
      LogLine ''Index'' (JNumber k),
      LogLine ''Image''
        (case js_get imageUrls (Some k) of Some url \<Rightarrow> JString url | None \<Rightarrow> JUndefined),
      GroupEnd]"

definition console_of :: "'img world \<Rightarrow> console_entry list" where
  "console_of w = concat (map winner_log (winners w))"

lemma winner_range:
  "0 < n \<Longrightarrow> 0 \<le> index \<Longrightarrow> 0 \<le> winner index si n \<and> winner index si n < int n"
  by (simp add: winner_def smod_mod_positive)

lemma frame_world_winners:
  assumes "images \<noteq> []" "world_inv w"
  shows "set (winners (frame_world images t w)) \<subseteq>
           set (winners w) \<union> {k. 0 \<le> k \<and> k < int (length images)}"
proof (cases "update images t (sim w)")
  case (fields r' cs out)
  have ri: "reel_inv (sim w)" using assms(2) by (simp add: world_inv_def)
  show ?thesis
  proof (cases out)
    case (Settled k)
    have "k = winner 1 (startIndex (pre_step (length images) t (sim w))) (length images)"
      using update_settled_parts [OF assms(1) ri] fields Settled by blast
    then have "0 \<le> k \<and> k < int (length images)" using assms(1) by (simp add: winner_range)
    with fields Settled show ?thesis by (auto simp: frame_world_def)
  qed (use fields in \<open>auto simp: frame_world_def\<close>)
qed

lemma reachable_winners_range:
  assumes "images \<noteq> []" "reachable images w"
  shows "\<forall>k\<in>set (winners w). 0 \<le> k \<and> k < int (length images)"
  using assms(2)
proof (induction rule: reachable.induct)
  case init
  show ?case by (simp add: init_world_def)
next
  case (step w e w')
  have inv: "world_inv w" using assms(1) step.hyps(1) by (rule reachable_world_inv)
  from step.hyps(2) show ?case
  proof (cases rule: host_step.cases)
    case (click t rnd)
    with step.IH show ?thesis by (simp add: click_world_def case_prod_beta)
  next
    case (frame t)
    with step.IH frame_world_winners [OF assms(1) inv, of t] show ?thesis by blast
  qed
qed



end
