(* ===== verification/Host_Run.thy ===== *)
theory Host_Run
  imports Host Spin
begin

text \<open>
  The frame chain inside the host loop. While one \<open>update\<close> callback is pending and the
  frame times do not go backwards, the host's frame events run exactly the chain
  \<open>run\<close> of Frames: a chain still running leaves one callback pending, and a chain that
  settles does so at a host frame that logs the same winner and leaves none pending.
  Clicks may arrive between the frames: a reel in flight ignores them, so the frames of
  an event sequence (\<open>frame_times\<close>) alone decide the chain. With the whole-spin
  analysis of Spin this gives the end of every spin in the host. Rule induction over
  \<open>reachable\<close> bounds \<open>startIndex\<close> and \<open>offset\<close> in every reachable world.
\<close>

text \<open>An event sequence of the host loop, read three ways: the frame times it contains in
  order (the fuel of \<open>run\<close>), the time of each event, and whether each click carries a
  \<open>Math.random()\<close> draw in \<open>[0, 1)\<close>.\<close>

fun frame_times :: "host_event list \<Rightarrow> real list" where
  "frame_times [] = []"
| "frame_times (Frame t # es) = t # frame_times es"
| "frame_times (Click t rnd # es) = frame_times es"

fun event_time :: "host_event \<Rightarrow> real" where
  "event_time (Click t rnd) = t"
| "event_time (Frame t) = t"

fun valid_click :: "host_event \<Rightarrow> bool" where
  "valid_click (Click t rnd) = (0 \<le> rnd \<and> rnd < 1)"
| "valid_click (Frame t) = True"

lemma frame_events [simp]:
  "frame_times (map Frame ts) = ts" "map event_time (map Frame ts) = ts"
  "list_all valid_click (map Frame ts)"
  by (induction ts) simp_all

lemma host_exec_frame:
  "0 < pending w \<Longrightarrow> clock w \<le> t \<Longrightarrow>
   host_exec images w (Frame t) = Some (frame_world images t w)"
  by (simp add: host_exec_def)

lemma frame_world_parts:
  assumes "update images t (sim w) = (r1, cs, out)"
  shows "sim (frame_world images t w) = r1" "clock (frame_world images t w) = t"
    and "pending (frame_world images t w) = pending w - 1 + (if out = Reschedule then 1 else 0)"
    and "winners (frame_world images t w) =
           winners w @ (case out of Settled k \<Rightarrow> [k] | _ \<Rightarrow> [])"
  using assms by (simp_all add: frame_world_def)

lemma run_host_running:
  assumes "pending w = 1" "sorted (clock w # ts)" "run images ts (sim w) = (r', Running)"
  shows "\<exists>w'. exec_events images (map Frame ts) w = Some w' \<and> sim w' = r' \<and> pending w' = 1 \<and>
              winners w' = winners w"
  using assms
proof (induction ts arbitrary: w)
  case Nil
  then show ?case by simp
next
  case (Cons t ts)
  obtain r1 cs out where u: "update images t (sim w) = (r1, cs, out)"
    by (cases "update images t (sim w)")
  note p = frame_world_parts [OF u]
  have out: "out = Reschedule"
    using Cons.prems(3) u by (cases out) auto
  let ?w1 = "frame_world images t w"
  have "\<exists>w'. exec_events images (map Frame ts) ?w1 = Some w' \<and> sim w' = r' \<and> pending w' = 1 \<and>
             winners w' = winners ?w1"
  proof (rule Cons.IH)
    show "pending ?w1 = 1" using p(3) out Cons.prems(1) by simp
    show "sorted (clock ?w1 # ts)" using p(2) Cons.prems(2) by simp
    show "run images ts (sim ?w1) = (r', Running)" using Cons.prems(3) u out p(1) by simp
  qed
  moreover have "exec_events images (map Frame (t # ts)) w = exec_events images (map Frame ts) ?w1"
    using Cons.prems(1,2) by (simp add: host_exec_frame)
  ultimately show ?case using p(4) out by simp
qed

lemma run_host_won:
  assumes "pending w = 1" "sorted (clock w # ts)" "run images ts (sim w) = (r', Won k)"
  shows "\<exists>n w'. exec_events images (map Frame (take n ts)) w = Some w' \<and> sim w' = r' \<and>
                pending w' = 0 \<and> winners w' = winners w @ [k]"
  using assms
proof (induction ts arbitrary: w)
  case Nil
  then show ?case by simp
next
  case (Cons t ts)
  obtain r1 cs out where u: "update images t (sim w) = (r1, cs, out)"
    by (cases "update images t (sim w)")
  note p = frame_world_parts [OF u]
  let ?w1 = "frame_world images t w"
  have ex: "exec_events images (Frame t # es) w = exec_events images es ?w1" for es
    using Cons.prems(1,2) by (simp add: host_exec_frame)
  show ?case
  proof (cases out)
    case Reschedule
    have "\<exists>n w'. exec_events images (map Frame (take n ts)) ?w1 = Some w' \<and> sim w' = r' \<and>
                 pending w' = 0 \<and> winners w' = winners ?w1 @ [k]"
    proof (rule Cons.IH)
      show "pending ?w1 = 1" using p(3) Reschedule Cons.prems(1) by simp
      show "sorted (clock ?w1 # ts)" using p(2) Cons.prems(2) by simp
      show "run images ts (sim ?w1) = (r', Won k)" using Cons.prems(3) u Reschedule p(1) by simp
    qed
    then obtain n w' where "exec_events images (map Frame (take n ts)) ?w1 = Some w'" "sim w' = r'"
      "pending w' = 0" "winners w' = winners ?w1 @ [k]" by blast
    then show ?thesis using ex [of "map Frame (take n ts)"] p(4) Reschedule
      by (intro exI [of _ "Suc n"] exI [of _ w']) simp
  next
    case (Settled k')
    then have "r1 = r'" "k' = k" using Cons.prems(3) u by simp_all
    then show ?thesis using ex [of "[]"] p Settled Cons.prems(1)
      by (intro exI [of _ 1] exI [of _ ?w1]) simp
  next
    case (Thrown e)
    then show ?thesis using Cons.prems(3) u by simp
  qed
qed

text \<open>C29: refinement of the frame chain by the host loop. From a world with one callback
  pending and frame times that do not go backwards, the host's frame events follow
  \<open>run\<close>: if the chain is still running after the frames, so is the host, with the
  same reel and one callback pending; if the chain settles with winner \<open>k\<close>, a prefix
  of the frames takes the host to the same reel, nothing pending and \<open>k\<close> appended to
  the logged winners.\<close>

theorem run_refines_host:
  assumes "pending w = 1" "sorted (clock w # ts)"
  shows "(\<forall>r'. run images ts (sim w) = (r', Running) \<longrightarrow>
            (\<exists>w'. exec_events images (map Frame ts) w = Some w' \<and> sim w' = r' \<and>
                  pending w' = 1 \<and> winners w' = winners w)) \<and>
         (\<forall>r' k. run images ts (sim w) = (r', Won k) \<longrightarrow>
            (\<exists>n w'. exec_events images (map Frame (take n ts)) w = Some w' \<and> sim w' = r' \<and>
                    pending w' = 0 \<and> winners w' = winners w @ [k]))"
  using run_host_running [OF assms] run_host_won [OF assms] by blast

lemma click_world_parts:
  "sim (click_world t rnd w) = fst (on_click t rnd (sim w))" "clock (click_world t rnd w) = t"
  "resting (sim w) \<Longrightarrow> pending (click_world t rnd w) = Suc (pending w)"
  "winners (click_world t rnd w) = winners w"
  by (simp_all add: click_world_def case_prod_beta on_click_accept)

lemma click_world_spinning:
  assumes "world_inv w" "pending w = 1"
  shows "click_world t rnd w = w\<lparr>clock := t\<rparr>"
proof -
  have "\<not> resting (sim w)" using assms by (auto simp: world_inv_def)
  then show ?thesis by (simp add: click_world_def on_click_reject)
qed

text \<open>The chain inside the host with clicks interleaved among the frames: each click
  meets a reel in flight and only moves the clock, so the frames alone decide the reel.\<close>

lemma run_host_running_clicks:
  assumes "images \<noteq> []" "world_inv w" "pending w = 1" "sorted (clock w # map event_time es)"
    and "list_all valid_click es" "run images (frame_times es) (sim w) = (r', Running)"
  shows "\<exists>w'. exec_events images es w = Some w' \<and> world_inv w' \<and> sim w' = r' \<and>
              pending w' = 1 \<and> winners w' = winners w"
  using assms(2-)
proof (induction es arbitrary: w)
  case Nil
  then show ?case by simp
next
  case (Cons e es)
  show ?case
  proof (cases e)
    case (Click t rnd)
    let ?w1 = "w\<lparr>clock := t\<rparr>"
    have "exec_events images (e # es) w = exec_events images es ?w1"
      using Cons.prems Click by (simp add: host_exec_def click_world_spinning)
    moreover have "\<exists>w'. exec_events images es ?w1 = Some w' \<and> world_inv w' \<and> sim w' = r' \<and>
                     pending w' = 1 \<and> winners w' = winners ?w1"
      by (rule Cons.IH) (use Cons.prems Click in \<open>simp_all add: world_inv_def\<close>)
    ultimately show ?thesis by simp
  next
    case (Frame t)
    obtain r1 cs out where u: "update images t (sim w) = (r1, cs, out)"
      by (cases "update images t (sim w)")
    note p = frame_world_parts [OF u]
    have out: "out = Reschedule"
      using Cons.prems(5) Frame u by (cases out) auto
    let ?w1 = "frame_world images t w"
    have "\<exists>w'. exec_events images es ?w1 = Some w' \<and> world_inv w' \<and> sim w' = r' \<and>
               pending w' = 1 \<and> winners w' = winners ?w1"
    proof (rule Cons.IH)
      show "world_inv ?w1" using frame_world_inv [OF assms(1) Cons.prems(1)] Cons.prems(2) by simp
      show "pending ?w1 = 1" using p(3) out Cons.prems(2) by simp
      show "sorted (clock ?w1 # map event_time es)" using p(2) Cons.prems(3) Frame by simp
      show "list_all valid_click es" using Cons.prems(4) by simp
      show "run images (frame_times es) (sim ?w1) = (r', Running)"
        using Cons.prems(5) Frame u out p(1) by simp
    qed
    moreover have "exec_events images (e # es) w = exec_events images es ?w1"
      using Cons.prems(2,3) Frame by (simp add: host_exec_frame)
    ultimately show ?thesis using p(4) out by simp
  qed
qed

lemma run_host_won_clicks:
  assumes "images \<noteq> []" "world_inv w" "pending w = 1" "sorted (clock w # map event_time es)"
    and "list_all valid_click es" "run images (frame_times es) (sim w) = (r', Won k)"
  shows "\<exists>n w'. exec_events images (take n es) w = Some w' \<and> world_inv w' \<and> sim w' = r' \<and>
                pending w' = 0 \<and> winners w' = winners w @ [k]"
  using assms(2-)
proof (induction es arbitrary: w)
  case Nil
  then show ?case by simp
next
  case (Cons e es)
  show ?case
  proof (cases e)
    case (Click t rnd)
    let ?w1 = "w\<lparr>clock := t\<rparr>"
    have ex: "exec_events images (e # fs) w = exec_events images fs ?w1" for fs
      using Cons.prems Click by (simp add: host_exec_def click_world_spinning)
    have "\<exists>n w'. exec_events images (take n es) ?w1 = Some w' \<and> world_inv w' \<and> sim w' = r' \<and>
                 pending w' = 0 \<and> winners w' = winners ?w1 @ [k]"
      by (rule Cons.IH) (use Cons.prems Click in \<open>simp_all add: world_inv_def\<close>)
    then obtain n w' where "exec_events images (take n es) ?w1 = Some w'" "world_inv w'"
      "sim w' = r'" "pending w' = 0" "winners w' = winners w @ [k]" by auto
    then show ?thesis using ex [of "take n es"]
      by (intro exI [of _ "Suc n"] exI [of _ w']) simp
  next
    case (Frame t)
    obtain r1 cs out where u: "update images t (sim w) = (r1, cs, out)"
      by (cases "update images t (sim w)")
    note p = frame_world_parts [OF u]
    let ?w1 = "frame_world images t w"
    have inv1: "world_inv ?w1" using frame_world_inv [OF assms(1) Cons.prems(1)] Cons.prems(2) by simp
    have ex: "exec_events images (e # fs) w = exec_events images fs ?w1" for fs
      using Cons.prems(2,3) Frame by (simp add: host_exec_frame)
    show ?thesis
    proof (cases out)
      case Reschedule
      have "\<exists>n w'. exec_events images (take n es) ?w1 = Some w' \<and> world_inv w' \<and> sim w' = r' \<and>
                   pending w' = 0 \<and> winners w' = winners ?w1 @ [k]"
      proof (rule Cons.IH [OF inv1])
        show "pending ?w1 = 1" using p(3) Reschedule Cons.prems(2) by simp
        show "sorted (clock ?w1 # map event_time es)" using p(2) Cons.prems(3) Frame by simp
        show "list_all valid_click es" using Cons.prems(4) by simp
        show "run images (frame_times es) (sim ?w1) = (r', Won k)"
          using Cons.prems(5) Frame u Reschedule p(1) by simp
      qed
      then obtain n w' where "exec_events images (take n es) ?w1 = Some w'" "world_inv w'"
        "sim w' = r'" "pending w' = 0" "winners w' = winners ?w1 @ [k]" by blast
      then show ?thesis using ex [of "take n es"] p(4) Reschedule
        by (intro exI [of _ "Suc n"] exI [of _ w']) simp
    next
      case (Settled k')
      then have "r1 = r'" "k' = k" using Cons.prems(5) Frame u by simp_all
      then show ?thesis using ex [of "[]"] p Settled Cons.prems(2) inv1
        by (intro exI [of _ 1] exI [of _ ?w1]) simp
    next
      case (Thrown e)
      then show ?thesis using Cons.prems(5) Frame u by simp
    qed
  qed
qed

text \<open>C30: every spin ends, in the browser's event loop, whatever clicks arrive meanwhile.
  In a reachable world at rest, a click followed by events in time order whose frames are
  as in C1 (clicks with a valid random draw may be interleaved anywhere among them) leads
  the host, after a prefix of these events, either to a world at rest with nothing
  pending and one more winner logged, or to the frozen fixed point with one callback
  pending forever. The interleaved clicks are ignored: they neither restart the spin nor
  schedule a second callback.\<close>

theorem host_spin_ends:
  assumes "images \<noteq> []" "reachable images w" "resting (sim w)"
    and "0 \<le> rnd" "rnd < 1" "sorted (clock w # now # map event_time es)"
    and "list_all valid_click es" "frame_times es = ts1 @ t # ts2"
    and "\<forall>u\<in>set ts1. u - now \<le>
           of_int (random_int ACCELERATION_DURATION_MIN ACCELERATION_DURATION_MAX rnd)"
    and "of_int (random_int ACCELERATION_DURATION_MIN ACCELERATION_DURATION_MAX rnd) < t - now"
    and "decel_frames ((BASE_SPEED + of_nat (length ts1)) * DECELERATION_MULTIPLIER) + 642
           \<le> length ts2"
  shows "\<exists>n w'. exec_events images (take n (Click now rnd # es)) w = Some w' \<and>
           ((resting (sim w') \<and> pending w' = 0 \<and> (\<exists>k. winners w' = winners w @ [k])) \<or>
            (stuck (sim w') \<and> pending w' = 1))"
proof -
  let ?w0 = "click_world now rnd w"
  have inv: "world_inv w" using reachable_world_inv [OF assms(1,2)] .
  then have p0: "pending w = 0" using assms(3) by (simp add: world_inv_def)
  note c = click_world_parts [where t = now and rnd = rnd and w = w]
  have w0: "world_inv ?w0" "pending ?w0 = 1" "sorted (clock ?w0 # map event_time es)"
    using click_world_inv [OF inv] c(2) c(3) [OF assms(3)] p0 assms(6) by simp_all
  have ex: "exec_events images (take (Suc n) (Click now rnd # es)) w =
              exec_events images (take n es) ?w0" for n
    using assms(4-6) by (simp add: host_exec_def)
  note sp = spin_run [OF assms(1,3,9-11)]
  show ?thesis
  proof (cases "\<exists>r' k. run images (frame_times es) (sim ?w0) = (r', Won k)")
    case True
    then obtain r' k where "run images (frame_times es) (sim ?w0) = (r', Won k)" by blast
    from run_host_won_clicks [OF assms(1) w0 assms(7) this] obtain n w' where
      w': "exec_events images (take n es) ?w0 = Some w'" "world_inv w'"
      "pending w' = 0" "winners w' = winners w @ [k]" using c(4) by auto
    then have "resting (sim w')" by (simp add: world_inv_def split: if_splits)
    then show ?thesis using w' ex [of n] by (intro exI [of _ "Suc n"] exI [of _ w']) simp
  next
    case False
    then obtain r' where r': "run images (frame_times es) (sim ?w0) = (r', Running)" "stuck r'"
      using sp c(1) assms(8) by (auto simp: stuck_def)
    from run_host_running_clicks [OF assms(1) w0 assms(7) r'(1)] obtain w' where
      w': "exec_events images es ?w0 = Some w'" "sim w' = r'" "pending w' = 1"
      by blast
    then show ?thesis using r'(2) ex [of "length es"]
      by (intro exI [of _ "Suc (length es)"] exI [of _ w']) simp
  qed
qed

theorem run_refines_host_witness:
  "\<exists>n w'. exec_events [0, 1, 2, 3, 4 :: nat] (map Frame (take n [1, 2]))
             \<lparr>sim = init_reel\<lparr>offset := 1 / 10\<rparr>, pending = 1, clock = 0, calls = [],
              winners = []\<rparr> = Some w' \<and>
           sim w' = init_reel \<and> pending w' = 0 \<and> winners w' = [1]"
proof -
  let ?w = "\<lparr>sim = init_reel\<lparr>offset := 1 / 10\<rparr>, pending = 1, clock = 0, calls = [],
             winners = []\<rparr> :: nat world"
  have "run [0, 1, 2, 3, 4 :: nat] [1, 2] (sim ?w) = (init_reel, Won 1)"
    using return_left_run [of "[0, 1, 2, 3, 4 :: nat]" "init_reel\<lparr>offset := 1 / 10\<rparr>" "[1, 2]"]
    by (simp add: init_reel_def del: run.simps)
  then show ?thesis
    using run_refines_host [where w = ?w and ts = "[1, 2]" and images = "[0, 1, 2, 3, 4 :: nat]"]
    by simp
qed

theorem host_spin_ends_witness:
  "\<exists>n w'. exec_events [0, 1, 2, 3, 4 :: nat]
             (take n (Click 0 0 # Frame 100 # Click 150 (1 / 2) # map Frame (200 # 600 # replicate 800 600)))
             (init_world [0, 1, 2, 3, 4 :: nat]) = Some w' \<and>
           ((resting (sim w') \<and> pending w' = 0 \<and> (\<exists>k. winners w' = [k])) \<or>
            (stuck (sim w') \<and> pending w' = 1))"
proof -
  have "decel_frames ((BASE_SPEED + of_nat (length [100, 200 :: real])) * DECELERATION_MULTIPLIER)
          \<le> 158"
    by (rule decel_frames_minimal) (simp_all add: power_divide)
  then show ?thesis
    using host_spin_ends [of "[0, 1, 2, 3, 4 :: nat]" "init_world [0, 1, 2, 3, 4 :: nat]" 0 0
        "Frame 100 # Click 150 (1 / 2) # map Frame (200 # 600 # replicate 800 600)"
        "[100, 200]" 600 "replicate 800 600", OF _ reachable.init]
    by (simp add: init_world_def resting_def init_reel_def random_int_def del: map_replicate map_map)
qed

lemma update_startIndex_bound:
  assumes "images \<noteq> []"
  shows "startIndex (fst (update images now r)) < length images \<or>
         startIndex (fst (update images now r)) = startIndex r"
proof -
  have "startIndex (fst (update images now r)) = startIndex (pre_step (length images) now r)"
    by (simp add: update_eq(1) [OF assms] motion_step_startIndex)
  then show ?thesis using assms
    by (auto simp: pre_step_def wrap_offset_def accel_timeout_keeps)
qed

text \<open>C31: the strip index stays an index of the image set. In every reachable world
  (images loaded) \<open>startIndex\<close> is in \<open>[0, N)\<close>, as the spec's \<open>startIndex\<close>
  promises: it starts at 0, the click leaves it alone, and the wrap of line 76 is the
  only write, modulo \<open>N\<close>.\<close>

theorem reachable_startIndex_bound:
  assumes "images \<noteq> []" "reachable images w"
  shows "startIndex (sim w) < length images"
  using assms(2)
proof (induction rule: reachable.induct)
  case init
  show ?case using assms(1) by (simp add: init_world_def init_reel_def)
next
  case (step w e w')
  from step.hyps(2) show ?case
  proof (cases rule: host_step.cases)
    case (click t rnd)
    with step.IH show ?thesis
      by (simp add: click_world_def on_click_def case_prod_beta)
  next
    case (frame t)
    with step.IH update_startIndex_bound [OF assms(1), of t "sim w"] show ?thesis
      by (auto simp: frame_world_def case_prod_beta)
  qed
qed

text \<open>C37: how far past the wrap the offset can be. In every reachable world (images
  loaded) the offset is at least 0 and exceeds \<open>IMAGE_WIDTH\<close> by at most the last
  frame's travel, which is bounded by the current speed (at most \<open>speed \<cdot> 20/19\<close>:
  the old speed is the new one minus \<open>ACCELERATION_STEP\<close> or over \<open>0.95\<close>), and in the
  return phase by at most the minimum step \<open>0.1\<close>. So outside acceleration at high
  speed the next wrap (lines 75-78) takes off exactly one width, and in the return phase
  the offset never reaches two widths.\<close>

theorem reachable_offset_bound:
  assumes "images \<noteq> []" "reachable images w"
  shows "0 \<le> offset (sim w) \<and>
         offset (sim w) \<le> IMAGE_WIDTH + (if state (sim w) = RETURN then 1 / 10
                                          else speed (sim w) * 20 / 19)"
  using assms(2)
proof (induction rule: reachable.induct)
  case init
  show ?case by (simp add: init_world_def init_reel_def)
next
  case (step w e w')
  have inv: "reel_inv (sim w)"
    using reachable_world_inv [OF assms(1) step.hyps(1)] by (simp add: world_inv_def)
  from step.hyps(2) show ?case
  proof (cases rule: host_step.cases)
    case (click t rnd)
    show ?thesis
    proof (cases "resting (sim w)")
      case True
      with click show ?thesis by (simp add: click_world_def on_click_accept resting_def)
    next
      case False
      with click have "sim w' = sim w" by (simp add: click_world_def on_click_reject)
      with step.IH show ?thesis by (simp only:)
    qed
  next
    case (frame t)
    have s: "sim w' = fst (update images t (sim w))"
      using frame by (simp add: frame_world_def case_prod_beta)
    have "0 \<le> offset (sim w')"
      using update_inv [OF assms(1) inv, of t] s by (simp add: reel_inv_def)
    moreover have "offset (sim w') \<le> IMAGE_WIDTH + (if state (sim w') = RETURN then 1 / 10
                                                     else speed (sim w') * 20 / 19)"
      unfolding s by (rule update_offset_bound [OF assms(1) inv])
    ultimately show ?thesis by (rule conjI)
  qed
qed

lemma update_startIndex:
  "startIndex (fst (update images now r)) =
     (if IMAGE_WIDTH < offset r then (startIndex r + 1) mod length images else startIndex r)"
proof (cases "images = []")
  case True
  then show ?thesis by (simp add: update_empty wrap_offset_def accel_timeout_keeps)
next
  case False
  then show ?thesis
    by (simp add: update_eq(1) motion_step_startIndex pre_step_def wrap_offset_def
        accel_timeout_keeps)
qed

text \<open>C40: \<open>startIndex\<close> moves only forward by one. Every event of the host loop
  either leaves \<open>startIndex\<close> alone or advances it by one, modulo the number of
  images, and it advances only on a frame that starts with the offset past one image
  width (spec, section 3: it \<open>advances by one position each time offset exceeds one
  image width\<close>). A click never moves it; nor does a frame that throws.\<close>

theorem startIndex_step:
  assumes "host_step images w e w'"
  shows "startIndex (sim w') = startIndex (sim w) \<or>
         (startIndex (sim w') = (startIndex (sim w) + 1) mod length images \<and>
          IMAGE_WIDTH < offset (sim w))"
  using assms
proof (cases rule: host_step.cases)
  case (click t rnd)
  then show ?thesis by (simp add: click_world_def on_click_def case_prod_beta)
next
  case (frame t)
  then show ?thesis
    using update_startIndex [of images t "sim w"] by (simp add: frame_world_def case_prod_beta)
qed

theorem reachable_startIndex_bound_witness:
  "startIndex (sim (click_world 0 0 (init_world [0, 1, 2, 3, 4 :: nat]))) < 5"
  using reachable_startIndex_bound [OF _ reachable_first_click [of "[0, 1, 2, 3, 4 :: nat]"]]
  by simp


theorem reachable_offset_bound_witness:
  "0 \<le> offset (sim (click_world 0 0 (init_world [0, 1, 2, 3, 4 :: nat]))) \<and>
   offset (sim (click_world 0 0 (init_world [0, 1, 2, 3, 4 :: nat]))) \<le> 128 + 5 * 20 / 19"
  using reachable_offset_bound [OF _ reachable_first_click [of "[0, 1, 2, 3, 4 :: nat]"]]
  by (simp add: click_world_def init_world_def on_click_def init_reel_def resting_def)


theorem startIndex_step_witness:
  "host_step [0, 1, 2, 3, 4 :: nat]
     \<lparr>sim = init_reel\<lparr>state := DECELERATION, speed := 1, startIndex := 4, offset := 130\<rparr>,
      pending = 1, clock = 0, calls = [], winners = []\<rparr> (Frame 1)
     (frame_world [0, 1, 2, 3, 4 :: nat] 1
        \<lparr>sim = init_reel\<lparr>state := DECELERATION, speed := 1, startIndex := 4, offset := 130\<rparr>,
         pending = 1, clock = 0, calls = [], winners = []\<rparr>) \<and>
   startIndex (sim (frame_world [0, 1, 2, 3, 4 :: nat] 1
        \<lparr>sim = init_reel\<lparr>state := DECELERATION, speed := 1, startIndex := 4, offset := 130\<rparr>,
         pending = 1, clock = 0, calls = [], winners = []\<rparr>)) = 0"
proof -
  let ?w = "\<lparr>sim = init_reel\<lparr>state := DECELERATION, speed := 1, startIndex := 4, offset := 130\<rparr>,
             pending = 1, clock = 0, calls = [], winners = []\<rparr> :: nat world"
  have h: "host_step [0, 1, 2, 3, 4 :: nat] ?w (Frame 1) (frame_world [0, 1, 2, 3, 4 :: nat] 1 ?w)"
    by (rule host_step.frame) simp_all
  have "startIndex (sim (frame_world [0, 1, 2, 3, 4 :: nat] 1 ?w)) = 4 \<or>
        startIndex (sim (frame_world [0, 1, 2, 3, 4 :: nat] 1 ?w)) = 0"
    using startIndex_step [OF h] by (simp add: init_reel_def)
  moreover have "startIndex (sim (frame_world [0, 1, 2, 3, 4 :: nat] 1 ?w)) \<noteq> 4"
    by (simp add: frame_world_def case_prod_beta update_startIndex init_reel_def)
  ultimately show ?thesis using h by simp
qed

end
