(* ===== verification/Init.thy ===== *)
theory Init
  imports Winner_Log
begin

text \<open>
  Start-up of the page (\<open>src/index.js\<close>, lines 35-37 and 120-150). On
  \<open>DOMContentLoaded\<close> (line 150) \<open>init\<close> sizes the canvas (line 121, the constants of
  Config), then loads the images one after the other (lines 124-130): each
  \<open>loadImage\<close> is the promise chain \<open>fetch \<rightarrow> blob \<rightarrow> createImageBitmap\<close>, any stage
  of which may reject. Only when every image has loaded does \<open>init\<close> log the array,
  install the click listener (lines 134-145) and draw the first frame (line 147): the host
  world of Host. A rejection propagates out of \<open>await\<close>: \<open>init\<close> rejects, nothing is
  drawn and no listener is ever installed. The three browser stages are parameters
  (network and decoding are not modelled); their rejection reasons are a type variable.
  The console output of the loading loop is a list of \<open>init_log\<close> entries.
  \<open>page_step\<close> is the page's life: loading, then failed or ready, with clicks that
  reach no listener while loading or after a failure, and the host loop once ready.
\<close>

text \<open>Lines 35-37.\<close>

definition loadImage ::
  "(string \<Rightarrow> 'e + 'resp) \<Rightarrow> ('resp \<Rightarrow> 'e + 'blob) \<Rightarrow> ('blob \<Rightarrow> 'e + 'img) \<Rightarrow> string \<Rightarrow> 'e + 'img" where
  "loadImage fetch blob createImageBitmap url =
     (case fetch url of
        Inl e \<Rightarrow> Inl e
      | Inr response \<Rightarrow>
          (case blob response of
             Inl e \<Rightarrow> Inl e
           | Inr b \<Rightarrow> createImageBitmap b))"

text \<open>The console calls of \<open>init\<close> (lines 123-132): \<open>console.group\<close>,
  \<open>console.time\<close>, \<open>console.timeEnd\<close> (its elapsed time is not modelled),
  \<open>console.log(images)\<close> and \<open>console.groupEnd\<close>.\<close>

datatype 'img init_log =
    Group string | TimeStart string | TimeEnd string | LogImages "'img list" | GroupEnd

text \<open>Line 20: the array \<open>images\<close> that \<open>init\<close> fills.\<close>

definition initial_images :: "'img list" where
  "initial_images = []"

text \<open>Lines 124-130: \<open>for (const imageUrl of imageUrls)\<close>, awaiting each load and
  pushing it onto \<open>images\<close>; a rejection leaves the loop at the \<open>await\<close>.\<close>

fun load_loop ::
  "(string \<Rightarrow> 'e + 'img) \<Rightarrow> string list \<Rightarrow> 'img list \<Rightarrow> 'img init_log list \<Rightarrow>
   ('e + 'img list) \<times> 'img init_log list" where
  "load_loop load [] images entries = (Inr images, entries)"
| "load_loop load (imageUrl # rest) images entries =
     (let entries1 = entries @ [Group imageUrl, TimeStart ''loading''] in
      case load imageUrl of
        Inl e \<Rightarrow> (Inl e, entries1)
      | Inr img \<Rightarrow> load_loop load rest (images @ [img]) (entries1 @ [TimeEnd ''loading'', GroupEnd]))"

text \<open>Lines 120-148: the loop starts from \<open>initial_images\<close>; on success the world of Host
  (listener installed, first frame drawn), on a rejection its reason.\<close>

definition init :: "(string \<Rightarrow> 'e + 'img) \<Rightarrow> ('e + 'img list \<times> 'img world) \<times> 'img init_log list" where
  "init load =
     (case load_loop load imageUrls initial_images [Group ''Loading images''] of
        (Inl e, entries) \<Rightarrow> (Inl e, entries)
      | (Inr images, entries) \<Rightarrow>
          (Inr (images, init_world images), entries @ [LogImages images, GroupEnd]))"

text \<open>The page (line 150): before \<open>init\<close> settles, while \<open>await\<close> is pending, no click
  listener exists; after a rejection none ever will; once ready, the host loop runs on the
  loaded images.\<close>

datatype ('e, 'img) page = Loading | Failed 'e | Ready "'img list" "'img world"

datatype page_event = InitSettled | HostEvent host_event

inductive page_step :: "(string \<Rightarrow> 'e + 'img) \<Rightarrow> ('e, 'img) page \<Rightarrow> page_event \<Rightarrow> ('e, 'img) page \<Rightarrow> bool"
  for load :: "string \<Rightarrow> 'e + 'img" where
  settle_fail: "fst (init load) = Inl e \<Longrightarrow> page_step load Loading InitSettled (Failed e)"
| settle_ready: "fst (init load) = Inr (images, w) \<Longrightarrow>
    page_step load Loading InitSettled (Ready images w)"
| click_loading: "page_step load Loading (HostEvent (Click t rnd)) Loading"
| click_failed: "page_step load (Failed e) (HostEvent (Click t rnd)) (Failed e)"
| ready: "host_step images w e w' \<Longrightarrow> page_step load (Ready images w) (HostEvent e) (Ready images w')"

inductive page_reachable :: "(string \<Rightarrow> 'e + 'img) \<Rightarrow> ('e, 'img) page \<Rightarrow> bool"
  for load :: "string \<Rightarrow> 'e + 'img" where
  start: "page_reachable load Loading"
| step: "page_reachable load p \<Longrightarrow> page_step load p ev p' \<Longrightarrow> page_reachable load p'"

inductive_cases page_step_FailedE: "page_step load (Failed e) ev p'"
inductive_cases page_step_ReadyE: "page_step load (Ready images w) ev p'"
inductive_cases page_step_LoadingE: "page_step load Loading ev p'"

text \<open>What one loaded URL adds to the console.\<close>

lemma load_loop_Inr:
  "load_loop load us imgs es = (Inr imgs', es') \<longleftrightarrow>
     (\<forall>u\<in>set us. \<not> isl (load u)) \<and> imgs' = imgs @ map (projr \<circ> load) us \<and>
     es' = es @ concat (map (\<lambda>u. [Group u, TimeStart ''loading'', TimeEnd ''loading'', GroupEnd]) us)"
proof (induction us arbitrary: imgs es)
  case Nil
  then show ?case by auto
next
  case (Cons x us)
  then show ?case by (cases "load x") (auto simp: Let_def)
qed

lemma load_loop_Inl:
  "load_loop load us imgs es = (Inl e, es') \<longleftrightarrow>
     (\<exists>us1 u us2. us = us1 @ u # us2 \<and> (\<forall>v\<in>set us1. \<not> isl (load v)) \<and> load u = Inl e \<and>
        es' = es @ concat (map (\<lambda>u. [Group u, TimeStart ''loading'', TimeEnd ''loading'', GroupEnd]) us1)
              @ [Group u, TimeStart ''loading''])"
proof (induction us arbitrary: imgs es)
  case Nil
  then show ?case by simp
next
  case (Cons x us)
  show ?case
  proof (cases "load x")
    case (Inl e')
    then show ?thesis by (auto simp: Let_def Cons_eq_append_conv)
  next
    case (Inr img)
    let ?g = "\<lambda>u. [Group u, TimeStart ''loading'', TimeEnd ''loading'', GroupEnd]"
    have step: "load_loop load (x # us) imgs es =
                  load_loop load us (imgs @ [img]) (es @ ?g x)"
      using Inr by (simp add: Let_def)
    show ?thesis
    proof
      assume "load_loop load (x # us) imgs es = (Inl e, es')"
      with step have "load_loop load us (imgs @ [img]) (es @ ?g x) = (Inl e, es')" by simp
      from Cons.IH [THEN iffD1, OF this]
      obtain us1 u us2 where h: "us = us1 @ u # us2" "\<forall>v\<in>set us1. \<not> isl (load v)"
        "load u = Inl e" "es' = (es @ ?g x) @ concat (map ?g us1) @ [Group u, TimeStart ''loading'']"
        by blast
      then show "\<exists>us1 u us2. x # us = us1 @ u # us2 \<and> (\<forall>v\<in>set us1. \<not> isl (load v)) \<and>
                   load u = Inl e \<and> es' = es @ concat (map ?g us1) @ [Group u, TimeStart ''loading'']"
        using Inr by (intro exI [of _ "x # us1"] exI [of _ u] exI [of _ us2]) simp
    next
      assume "\<exists>us1 u us2. x # us = us1 @ u # us2 \<and> (\<forall>v\<in>set us1. \<not> isl (load v)) \<and>
                load u = Inl e \<and> es' = es @ concat (map ?g us1) @ [Group u, TimeStart ''loading'']"
      then obtain us1 u us2 where h: "x # us = us1 @ u # us2" "\<forall>v\<in>set us1. \<not> isl (load v)"
        "load u = Inl e" "es' = es @ concat (map ?g us1) @ [Group u, TimeStart ''loading'']"
        by blast
      obtain us1' where us1: "us1 = x # us1'"
        using h(1,3) Inr by (cases us1) auto
      have "load_loop load us (imgs @ [img]) (es @ ?g x) = (Inl e, es')"
        by (rule Cons.IH [THEN iffD2]) (use h us1 in auto)
      then show "load_loop load (x # us) imgs es = (Inl e, es')" using step by simp
    qed
  qed
qed

lemma init_Inr:
  "fst (init load) = Inr (images, w) \<Longrightarrow>
   (\<forall>u\<in>set imageUrls. \<not> isl (load u)) \<and> images = map (projr \<circ> load) imageUrls \<and>
   w = init_world images"
  by (auto simp: init_def initial_images_def load_loop_Inr split: prod.splits sum.splits)

lemma init_Inl: "fst (init load) = Inl e \<Longrightarrow> \<exists>es. load_loop load imageUrls [] [Group ''Loading images''] = (Inl e, es)"
  by (auto simp: init_def initial_images_def split: prod.splits sum.splits)

text \<open>C32: when every URL loads, \<open>init\<close> is ready with the images in the order of
  \<open>imageUrls\<close>, image \<open>i\<close> loaded from URL \<open>i\<close>; it has drawn the first frame,
  installed the listener, and its console output is one closed group per URL inside the
  closed group \<open>Loading images\<close>.\<close>

theorem init_loads_all:
  assumes "\<forall>u\<in>set imageUrls. \<not> isl (load u)"
  defines "images \<equiv> map (projr \<circ> load) imageUrls"
  shows "init load =
           (Inr (images, init_world images),
            Group ''Loading images'' #
            concat (map (\<lambda>u. [Group u, TimeStart ''loading'', TimeEnd ''loading'', GroupEnd]) imageUrls)
            @ [LogImages images, GroupEnd])"
proof -
  have "load_loop load imageUrls [] [Group ''Loading images''] =
          (Inr images, Group ''Loading images'' #
            concat (map (\<lambda>u. [Group u, TimeStart ''loading'', TimeEnd ''loading'', GroupEnd]) imageUrls))"
    using assms(1) by (simp add: load_loop_Inr images_def)
  then show ?thesis by (simp add: init_def initial_images_def)
qed

text \<open>C33: a rejected load rejects \<open>init\<close>. If the first URL whose load rejects is
  \<open>u\<close>, \<open>init\<close> rejects with that reason, never fetches the URLs after it, draws
  nothing and installs no listener; its console output stops after \<open>console.time\<close>
  for \<open>u\<close>, leaving the groups \<open>Loading images\<close> and \<open>u\<close> and the timer open.\<close>

theorem init_rejects:
  assumes "imageUrls = us1 @ u # us2" "\<forall>v\<in>set us1. \<not> isl (load v)" "load u = Inl e"
  shows "init load =
           (Inl e,
            Group ''Loading images'' #
            concat (map (\<lambda>u. [Group u, TimeStart ''loading'', TimeEnd ''loading'', GroupEnd]) us1)
            @ [Group u, TimeStart ''loading''])"
proof -
  have "load_loop load imageUrls [] [Group ''Loading images''] =
          (Inl e, Group ''Loading images'' #
            concat (map (\<lambda>u. [Group u, TimeStart ''loading'', TimeEnd ''loading'', GroupEnd]) us1)
            @ [Group u, TimeStart ''loading''])"
    by (rule load_loop_Inl [THEN iffD2]) (use assms in auto)
  then show ?thesis by (simp add: init_def initial_images_def)
qed

lemma page_reachable_ready:
  "page_reachable load p \<Longrightarrow> p = Ready images w \<Longrightarrow>
   reachable images w \<and> (\<forall>u\<in>set imageUrls. \<not> isl (load u)) \<and>
   images = map (projr \<circ> load) imageUrls"
proof (induction arbitrary: images w rule: page_reachable.induct)
  case start
  then show ?case by simp
next
  case (step p ev p')
  from step.hyps(2) step.prems step.IH show ?case
  proof (cases rule: page_step.cases)
    case (settle_ready images' w')
    with step.prems show ?thesis using init_Inr [of load images' w'] by (auto intro: reachable.init)
  next
    case (ready images' w0 e w1)
    with step.prems step.IH show ?thesis by (auto intro: reachable.step)
  qed auto
qed



text \<open>C39: once the page is ready nothing throws. On every reachable ready page,
  whatever the world, \<open>draw\<close> finds an image for every slot and a frame never ends in
  the TypeError of \<open>drawImage(undefined)\<close> (C16): the listener that starts the frame
  loop exists only after every URL has loaded, so the image array is never empty.\<close>

theorem ready_page_never_throws:
  assumes "page_reachable load (Ready images w)"
  shows "snd (draw images (sim w)) = None \<and> snd (snd (update images t (sim w))) \<noteq> Thrown e"
proof -
  note r = page_reachable_ready [OF assms refl]
  have ne: "images \<noteq> []" using r by (simp add: imageUrls_def)
  have "reachable images w" using r by blast
  then have "world_inv w" by (rule reachable_world_inv [OF ne])
  then have "reel_inv (sim w)" by (simp add: world_inv_def)
  then show ?thesis using update_outcome(2) [OF ne] by (simp add: draw_ok [OF ne])
qed

lemma ready_page_of_lengths:
  "page_reachable (\<lambda>u. Inr (length u) :: unit + nat)
     (Ready (map length imageUrls) (init_world (map length imageUrls)))"
proof -
  let ?load = "\<lambda>u. Inr (length u) :: unit + nat"
  have "fst (init ?load) = Inr (map length imageUrls, init_world (map length imageUrls))"
    by (simp add: init_def initial_images_def imageUrls_def)
  then have "page_step ?load Loading InitSettled
               (Ready (map length imageUrls) (init_world (map length imageUrls)))"
    by (rule page_step.settle_ready)
  then show ?thesis by (rule page_reachable.step [OF page_reachable.start])
qed

text \<open>Witnesses. A loader that succeeds with the length of the URL, one that rejects the
  third URL, and one that rejects everything.\<close>

theorem init_loads_all_witness:
  "fst (init (\<lambda>u. Inr (length u) :: unit + nat)) =
     Inr (map length imageUrls, init_world (map length imageUrls))"
  using init_loads_all [of "\<lambda>u. Inr (length u) :: unit + nat"] by (simp add: comp_def)

theorem init_rejects_witness:
  "init (\<lambda>u. if u = imageUrls ! 2 then Inl () else Inr (0 :: nat)) =
     (Inl (),
      Group ''Loading images'' #
      concat (map (\<lambda>u. [Group u, TimeStart ''loading'', TimeEnd ''loading'', GroupEnd])
        (take 2 imageUrls)) @ [Group (imageUrls ! 2), TimeStart ''loading''])"
  using init_rejects [of "take 2 imageUrls" "imageUrls ! 2" "drop 3 imageUrls"
      "\<lambda>u. if u = imageUrls ! 2 then Inl () else Inr (0 :: nat)" "()"]
  by (simp add: imageUrls_def)


theorem ready_page_never_throws_witness:
  "snd (draw (map length imageUrls) init_reel) = None \<and>
   snd (snd (update (map length imageUrls) 0 init_reel)) \<noteq> Thrown TypeError"
  using ready_page_never_throws [OF ready_page_of_lengths, of 0 TypeError]
  by (simp add: init_world_def)


end
