(* ===== verification/Spec2Isabelle.thy ===== *)
theory Spec2Isabelle
  imports Frames Host Spin Position Winner_Log Host_Run Init
begin

text \<open>
  \<^bold>\<open>A verification library for the reel spinner of \<open>src/index.js\<close>.\<close>

  \<^bold>\<open>The program.\<close> One file draws a strip of images on a canvas and, on a click,
  spins it: an acceleration phase of random duration, a geometric deceleration, and a
  return phase that pulls the strip onto the nearest aligned image; then the winning
  image is highlighted and logged. All state is six top-level variables; the click
  listener arms a spin and starts a \<open>requestAnimationFrame\<close> loop of \<open>update\<close>,
  which calls \<open>draw\<close> and reschedules itself until speed and offset are both 0.

  \<^bold>\<open>Theories, in import order, and what of the code each models.\<close>
  \<^item> \<open>Prelude\<close>: the JavaScript semantics the code relies on: \<open>x % y\<close> on numbers
    (\<open>js_fmod\<close>, the dividend's sign) and integers (\<open>js_rem\<close>, NaN as \<open>None\<close>),
    \<open>Math.trunc\<close>, and \<open>images[i]\<close> with \<open>undefined\<close> as \<open>None\<close> (\<open>js_get\<close>).
    Numbers are exact reals; IEEE rounding is not modelled.
  \<^item> \<open>Config\<close>: the constants of lines 4-18, \<open>STATE\<close> as the datatype \<open>phase\<close>
    with its codes, and the derived geometry (canvas size of line 121, \<open>center\<close> of
    line 82, \<open>halfCount\<close> of line 95).
  \<^item> \<open>Reel_State\<close>: the globals of lines 28-33 as the record \<open>reel\<close>
    (\<open>init_reel\<close> their initial values), \<open>random\<close> (line 39) as \<open>random_int\<close>
    with the draw of \<open>Math.random()\<close> as an argument, the click listener
    (lines 134-145) as \<open>on_click\<close>, returning the new state and whether a frame was
    requested.
  \<^item> \<open>Canvas\<close>: the browser's 2D context (an external collaborator): the calls the
    program makes as a datatype and their effect on styles and the current path.
  \<^item> \<open>Draw\<close>: \<open>draw\<close> (lines 41-65) as the list of calls it makes, with the slot
    loop \<open>draw_slots\<close> and the TypeError of \<open>drawImage(undefined)\<close> as a value.
  \<^item> \<open>Update\<close>: one frame, \<open>update\<close> (lines 67-118), composed as the source is of
    \<open>accel_timeout\<close> (69-73), \<open>wrap_offset\<close> (75-78), \<open>draw\<close>, \<open>center_index\<close>
    (82-83), \<open>motion_step\<close> (85-104, with \<open>return_step\<close> for 95-103), the
    continuation test and, at the settle event, \<open>highlight\<close> and \<open>winner\<close>
    (109-112). Its result is the new state, the canvas calls and the \<open>outcome\<close>:
    \<open>Reschedule\<close>, \<open>Settled winner\<close> or \<open>Thrown error\<close>.
  \<^item> \<open>Reel_Invariant\<close>: the invariant \<open>reel_inv\<close> (phase and speed agree, speed
    and offset are non-negative), its preservation by \<open>update\<close>, and the settle
    analysis (a frame settles only in the return phase on the centre slot).
  \<^item> \<open>Frames\<close>: the self-rescheduling chain as \<open>run\<close> over a list of frame times;
    the list is the fuel, and the theorems say how long it must be.
  \<^item> \<open>Spin\<close>: the spinning phases of \<open>run\<close> over many frames: acceleration
    while the frame times stay within the drawn duration, and the geometric
    deceleration, with \<open>decel_frames\<close> (a terminating recursion on the speed) counting
    its frames.
  \<^item> \<open>Host\<close>: the browser event loop: clicks and frames interleave in any order
    (\<open>host_step\<close>, an inductive relation over a world of reel, pending callbacks,
    clock, canvas calls and logged winners), reachable worlds, and \<open>world_inv\<close>;
    \<open>host_exec\<close> and \<open>exec_events\<close> run the same loop as a function. The listener
    of lines 134-145 is \<open>click_listener\<close>: \<open>event.preventDefault()\<close> (line 135) on the
    DOM event's \<open>defaultPrevented\<close> flag, then the body \<open>click_world\<close>.
  \<^item> \<open>Host_Run\<close>: the frame chain \<open>run\<close> inside the host loop, also with clicks
    interleaved among the frames (\<open>frame_times\<close> projects an event sequence on its
    frames), the whole spin lifted to the host, and the bounds on \<open>startIndex\<close> and
    \<open>offset\<close> in every reachable world.
  \<^item> \<open>Position\<close>: the abstract reel, a circle of circumference
    \<open>N \<cdot> IMAGE_WIDTH\<close>; \<open>reel_pos\<close> maps (\<open>startIndex\<close>, \<open>offset\<close>) to a
    fraction of a turn and \<open>pos_decode\<close> reads it back.
  \<^item> \<open>Winner_Log\<close>: the console output of the settle event (lines 109-116) with
    \<open>imageUrls\<close> (lines 21-27), JavaScript values including \<open>undefined\<close>, and the
    whole log of a host world.
  \<^item> \<open>Init\<close>: start-up (lines 1-2, 35-37, 120-150): \<open>loadImage\<close> as the promise
    chain over the browser's \<open>fetch\<close>, \<open>blob\<close> and \<open>createImageBitmap\<close> (parameters
    that may reject), the sequential \<open>await\<close> loop \<open>load_loop\<close> with its console
    output \<open>init_log\<close> starting from the empty array \<open>initial_images\<close> (line 20),
    \<open>init\<close> ending in the host world or the rejection, and the page's
    life \<open>page_step\<close> (loading, failed, ready) from \<open>DOMContentLoaded\<close>.
  \<^item> this theory: the properties that span the renderer and the frame update,
    among them the picture of the settling frame.

  \<^bold>\<open>What is proved.\<close> The whole spin (here, C1): after a click on a resting reel,
  \<open>k\<close> frames inside the drawn acceleration window and one frame past it, at most
  \<open>decel_frames ((5 + k) \<cdot> 0.95) + 642\<close> further frames, whatever their times, end
  the spin with a logged winner or on the fixed point \<open>stuck\<close>. It composes the
  acceleration run and the switch frame (Spin), the deceleration count (C19) and
  \<open>return_phase_ends\<close> (Frames, 642 frames from any offset the deceleration leaves).
  The fuel is the list of frame times; no frame-time assumption beyond the window is
  needed, because only the acceleration test reads the clock. In the host loop
  (Host_Run) the frame events follow \<open>run\<close> exactly while one callback is pending
  (C29), so from any reachable world at rest a click and these frames end, after a
  prefix of them, at rest with one more winner logged or frozen on the fixed point, with
  any further clicks interleaved among the frames, which the reel in flight ignores (C30);
  \<open>startIndex\<close> stays in \<open>[0, N)\<close> in every reachable world (C31), and the offset in
  \<open>[0, IMAGE_WIDTH + speed \<cdot> 20/19]\<close>, in the return phase in
  \<open>[0, IMAGE_WIDTH + 0.1]\<close> (C37); every event leaves \<open>startIndex\<close> alone or
  advances it by one modulo \<open>N\<close>, the latter only on a frame that starts past one
  image width (C40). Start-up (Init):
  when every URL loads, \<open>init\<close> yields the images in URL order with a balanced log (C32);
  the first rejection is \<open>init\<close>'s result, later URLs are never fetched and the log
  leaves two groups and a timer open (C33); on a ready page every logged winner's URL is
  the one its drawn image was loaded from (C34); after a rejection the page never gets a
  listener, a frame or a spin (C35); on a ready page no draw and no frame
  throws, since the image array is never empty there (C39). Return phase (Frames): from an offset left of the half-slot
  boundary the reel settles within \<open>\<lceil>10 \<cdot> offset\<rceil> + 1\<close> frames on the centre slot
  (C2); from the right, within \<open>\<lceil>10 \<cdot> (128 - offset)\<rceil> + 2\<close> frames it either settles one
  image further on or lands on offset \<open>IMAGE_WIDTH\<close> (C5), a fixed point where it
  never settles (C6), after which the whole page is frozen (C18). The bounds come from
  the minimum step \<open>0.1\<close> of line 99: each frame that does not settle moves the offset
  at least \<open>0.1\<close> towards its target. Settle event (here): the winner is
  \<open>(1 + startIndex) mod N\<close>, the image drawn across the divider, highlighted at
  \<open>x = IMAGE_WIDTH\<close> (C3); with one image it is always 0 (C17). The settling
  frame draws the images at the offset before the snap, strictly between 0 and
  \<open>0.2\<close>, but the highlight at the snapped offset 0, so the resting picture shows
  the highlight up to \<open>0.2\<close> pixels off the winning image (C38, against the spec's
  rule that both use the same offset). Event loop (Host):
  at most one callback is pending, exactly while the reel is not at rest (C4), and a
  click during a spin changes nothing (C7); the reachable worlds are exactly those some
  guarded event sequence executes to (C28). Trigger (Reel_State): a click at rest arms
  the spin with a duration in \<open>[500, 1500]\<close> (C8); \<open>random(min, max)\<close> ranges over
  exactly \<open>[min, max]\<close> (C9). Frame steps (Update): the acceleration and deceleration
  rules (C11, C12), phases never go backwards (C13), the wrap removes exactly one width
  only below two widths (C14), an empty image list throws (C16). Renderer (Draw, here):
  \<open>draw\<close> issues the design's frame, image \<open>(k + startIndex) mod N\<close> in slot \<open>k\<close>
  (C10), and grows the canvas path by three commands every frame (C15); every frame
  covers each pixel column \<open>x\<close> of the canvas with the image at strip position
  \<open>x + offset\<close> (C27), so the slots leave no gap. Spinning
  phases (Spin): after a click every frame within the drawn duration adds 1 to the
  speed (C22), with no cap, so that at 240 frames per second the offset passes two image
  widths and the next wrap skips an image (C23, a code bug); the deceleration ends after
  exactly \<open>decel_frames speed\<close> frames in the return phase (C19), scaling the speed by
  \<open>0.95\<close> per frame until then (C20), and \<open>decel_frames s\<close> is the least \<open>k > 0\<close>
  with \<open>s \<cdot> 0.95\<^sup>k < 0.01\<close> (C21). Its termination measure is
  \<open>\<lceil>2000 \<cdot> s\<rceil>\<close>: a frame that keeps decelerating has \<open>s \<ge> 0.0105\<close> and so loses
  at least \<open>1.05\<close> of it. Abstraction (Position): a spinning frame that starts below
  two widths turns the circle by exactly \<open>speed\<close> (C24, the spec's conservation rule
  per frame), and the circle position of a normal reel decodes back to its
  (\<open>startIndex\<close>, \<open>offset\<close>) (C25); \<open>draw\<close> paints the circle: the image in
  column \<open>x\<close> is \<open>\<lfloor>x / IMAGE_WIDTH + reel_pos \<cdot> N\<rfloor> mod N\<close> (C36). Log (Winner_Log): in every reachable world the
  logged image is a URL of \<open>imageUrls\<close>, never \<open>undefined\<close> (C26).

  \<^bold>\<open>Not modelled.\<close> The network and decoding behind \<open>fetch\<close>, \<open>blob\<close> and
  \<open>createImageBitmap\<close> are parameters of \<open>loadImage\<close> (Init), which may answer an image
  or a rejection for any URL; of the DOM event only the \<open>defaultPrevented\<close> flag
  that line 135 sets is modelled; \<open>console.timeEnd\<close> is modelled without its elapsed
  time.
  Floating-point rounding is not modelled: numbers are exact reals.

  \<^bold>\<open>Plan for the rest of the development.\<close> (1) The canvas interpreter applied
  to whole host runs (what is painted per frame). (2) Clicks interleaved with the
  page's loading (\<open>page_step\<close>) followed by a whole spin.
\<close>

text \<open>The settling frame's picture: the images at the pre-step offset, the highlight
  at the snapped offset 0.\<close>

lemma settle_frame:
  assumes "images \<noteq> []" "reel_inv r" "update images now r = (r', cs, Settled k)"
  defines "r1 \<equiv> pre_step (length images) now r"
  shows "r' = r1\<lparr>offset := 0\<rparr> \<and> state r1 = RETURN \<and> speed r1 = 0 \<and>
         0 \<le> offset r1 \<and> offset r1 \<le> 1 / 5 \<and> k = int ((startIndex r1 + 1) mod length images) \<and>
         DrawImage (images ! nat k) (IMAGE_WIDTH - offset r1) 0 IMAGE_WIDTH IMAGE_HEIGHT \<in> set cs \<and>
         last cs = FillRect IMAGE_WIDTH 0 IMAGE_WIDTH IMAGE_HEIGHT"
proof -
  let ?n = "length images"
  have p: "r' = r1\<lparr>offset := 0\<rparr>" "state r1 = RETURN" "speed r1 = 0"
      "0 \<le> offset r1" "offset r1 \<le> 1 / 5" "k = winner 1 (startIndex r1) ?n"
      "cs = fst (draw images r1) @ highlight 1 0"
    using update_settled_parts [OF assms(1-3)] by (simp_all add: r1_def)
  have mod_eq: "(1 + int (startIndex r1)) mod int ?n = int ((startIndex r1 + 1) mod ?n)"
    by (simp add: zmod_int add.commute)
  have k: "k = int ((startIndex r1 + 1) mod ?n)"
    using p(6) assms(1) mod_eq by (simp add: winner_def smod_mod_positive)
  have "slot_call images r1 1 \<in> set cs" using assms(1) p(7) by (simp add: draw_ok)
  moreover have "slot_call images r1 1 =
      DrawImage (images ! nat k) (IMAGE_WIDTH - offset r1) 0 IMAGE_WIDTH IMAGE_HEIGHT"
    using k mod_eq by (simp add: slot_call_def)
  moreover have "last cs = FillRect IMAGE_WIDTH 0 IMAGE_WIDTH IMAGE_HEIGHT"
    by (simp add: p(7) highlight_def)
  ultimately show ?thesis using p k by simp
qed

lemma pre_step_return_pos:
  assumes "state r = RETURN" "0 < offset r" "offset r \<le> IMAGE_WIDTH + 1 / 10"
  shows "0 < offset (pre_step n now r)"
proof (cases "IMAGE_WIDTH < offset r")
  case True
  then have "js_fmod (offset r) IMAGE_WIDTH = offset r - IMAGE_WIDTH"
    using assms(3) by (intro js_fmod_once) simp_all
  with True assms(1) show ?thesis
    by (simp add: pre_step_def accel_timeout_other wrap_offset_def)
next
  case False
  with assms(1,2) show ?thesis by (simp add: pre_step_def accel_timeout_other wrap_offset_id)
qed

lemma pre_step_state_return: "state (pre_step n now r) = RETURN \<longleftrightarrow> state r = RETURN"
  by (cases "state r") (simp_all add: pre_step_def wrap_offset_keeps accel_timeout_def Let_def)

text \<open>C3: the settle event. When a frame from a state satisfying the reel invariant
  ends the spin (\<open>update\<close> returns \<open>Settled k\<close>), the reel rests in the return
  phase, the logged winner \<open>k\<close> is \<open>(centre slot + startIndex) mod N\<close> with the centre
  slot \<open>1 = halfCount\<close>, the last canvas call is the highlight over slot 1, and the
  frame drew image \<open>k\<close> across the divider: the reported winner is the image under the
  centre line.\<close>

theorem settle_winner:
  assumes "images \<noteq> []" "reel_inv r" "update images now r = (r', cs, Settled k)"
  shows "k = int ((startIndex r' + 1) mod length images) \<and> resting r' \<and> state r' = RETURN \<and>
         last cs = FillRect IMAGE_WIDTH 0 IMAGE_WIDTH IMAGE_HEIGHT \<and>
         (\<exists>x. DrawImage (images ! nat k) x 0 IMAGE_WIDTH IMAGE_HEIGHT \<in> set cs \<and>
              x \<le> divider_x \<and> divider_x < x + IMAGE_WIDTH)"
proof -
  obtain r1 where p: "r' = r1\<lparr>offset := 0\<rparr>" "state r1 = RETURN" "speed r1 = 0"
      "0 \<le> offset r1" "offset r1 \<le> 1 / 5" "k = int ((startIndex r1 + 1) mod length images)"
      "DrawImage (images ! nat k) (IMAGE_WIDTH - offset r1) 0 IMAGE_WIDTH IMAGE_HEIGHT \<in> set cs"
      "last cs = FillRect IMAGE_WIDTH 0 IMAGE_WIDTH IMAGE_HEIGHT"
    using settle_frame [OF assms] by blast
  have "\<exists>x. DrawImage (images ! nat k) x 0 IMAGE_WIDTH IMAGE_HEIGHT \<in> set cs \<and>
              x \<le> divider_x \<and> divider_x < x + IMAGE_WIDTH"
    using p(4,5,7) by (intro exI [of _ "IMAGE_WIDTH - offset r1"]) simp
  then show ?thesis using p by (simp add: resting_def)
qed

text \<open>C38: the final picture is not aligned. The frame that settles draws the images (line 80) at
  the offset it stepped from, which is strictly positive (at most \<open>0.2\<close>), and then
  the highlight at the offset after the snap to 0 (line 112 reads \<open>offset\<close> after line 102
  zeroed it): the winning image is at \<open>IMAGE_WIDTH - d\<close>, the highlight at
  \<open>IMAGE_WIDTH\<close>. No frame follows a settle, so this is the picture the reel rests
  with. The spec (4.2, step 4) asks the highlight to use the same offset as the images.
  The hypotheses hold at every frame of the host: a callback is pending only while the
  reel is not at rest (C4), and in the return phase the offset is at most
  \<open>IMAGE_WIDTH + 0.1\<close> (C37).\<close>

theorem settle_highlight_offset:
  assumes "images \<noteq> []" "reel_inv r" "\<not> resting r"
    and "state r = RETURN \<longrightarrow> offset r \<le> IMAGE_WIDTH + 1 / 10"
    and "update images now r = (r', cs, Settled k)"
  shows "\<exists>d. 0 < d \<and> d \<le> 1 / 5 \<and>
           DrawImage (images ! nat k) (IMAGE_WIDTH - d) 0 IMAGE_WIDTH IMAGE_HEIGHT \<in> set cs \<and>
           last cs = FillRect IMAGE_WIDTH 0 IMAGE_WIDTH IMAGE_HEIGHT"
proof -
  let ?r1 = "pre_step (length images) now r"
  have p: "state ?r1 = RETURN" "offset ?r1 \<le> 1 / 5"
      "DrawImage (images ! nat k) (IMAGE_WIDTH - offset ?r1) 0 IMAGE_WIDTH IMAGE_HEIGHT \<in> set cs"
      "last cs = FillRect IMAGE_WIDTH 0 IMAGE_WIDTH IMAGE_HEIGHT"
    using settle_frame [OF assms(1,2,5)] by blast+
  have ret: "state r = RETURN" using p(1) by (simp add: pre_step_state_return)
  then have "0 < offset r" using assms(2,3) by (auto simp: reel_inv_def resting_def)
  then have "0 < offset ?r1" using ret assms(4) by (intro pre_step_return_pos) simp_all
  then show ?thesis using p(2-4) by blast
qed

lemma path_growth_slot_call: "path_growth (slot_call images r k # ks) = path_growth ks"
  by (simp add: slot_call_def)

text \<open>C15: the canvas path is never reset. \<open>draw\<close> adds three commands (moveTo,
  lineTo, closePath) to the context's current path and never calls \<open>beginPath()\<close>:
  the path grows by three with every frame and each \<open>stroke()\<close> re-strokes all of it.\<close>

theorem draw_path_growth:
  assumes "images \<noteq> []"
  shows "length (path (fst (exec_calls (fst (draw images r)) c))) = length (path c) + 3"
proof -
  have "path_growth (fst (draw images r)) = 3"
    using assms by (simp add: draw_ok background_def divider_def path_growth_slot_call)
  then show ?thesis by (simp add: exec_calls_path_length)
qed



text \<open>C1: every spin ends. After a click on a resting reel, let the acceleration run
  over frames within the drawn duration, then one frame past it. The deceleration then
  takes \<open>decel_frames\<close> frames and the return phase at most 642 more. Whatever the
  frame times, the loop has by then either logged a winner, or it has reached the fixed
  point \<open>stuck\<close> of C6 and C18, where it never settles. The frame counts are those
  of Spin (C19) and Frames (the return phase from \<open>[0, IMAGE_WIDTH + 0.1)\<close>).\<close>

theorem spin_settles_or_sticks:
  assumes "images \<noteq> []" "resting r"
    and "\<forall>u\<in>set ts1. u - now \<le>
           of_int (random_int ACCELERATION_DURATION_MIN ACCELERATION_DURATION_MAX rnd)"
    and "of_int (random_int ACCELERATION_DURATION_MIN ACCELERATION_DURATION_MAX rnd) < t - now"
    and "decel_frames ((BASE_SPEED + of_nat (length ts1)) * DECELERATION_MULTIPLIER) + 642
           \<le> length ts2"
  shows "(\<exists>r' w. run images (ts1 @ t # ts2) (fst (on_click now rnd r)) = (r', Won w)) \<or>
         (\<exists>r'. run images (ts1 @ t # ts2) (fst (on_click now rnd r)) = (r', Running) \<and> stuck r')"
  using spin_run [OF assms] by (auto simp: stuck_def)

text \<open>C27: every frame paints the whole canvas. In a frame from a state with the reel
  invariant, every pixel column \<open>x\<close> of the canvas (\<open>0 \<le> x < canvas.width\<close>) is
  covered by a \<open>drawImage\<close> of the image at strip position \<open>x + offset\<close>, the image
  \<open>(\<lfloor>(x + offset) / IMAGE_WIDTH\<rfloor> + startIndex) mod N\<close> of the wrapped state: the
  five slots of lines 48-58 leave no gap and show the strip in order.\<close>

theorem frame_paints_canvas:
  fixes now :: real
  assumes "images \<noteq> []" "reel_inv r" "0 \<le> x" "x < canvas_width"
  defines "r1 \<equiv> pre_step (length images) now r"
  shows "\<exists>x0. DrawImage (images ! nat ((\<lfloor>(x + offset r1) / IMAGE_WIDTH\<rfloor> + int (startIndex r1))
                                      mod int (length images)))
                 x0 0 IMAGE_WIDTH IMAGE_HEIGHT \<in> set (fst (snd (update images now r))) \<and>
              x0 \<le> x \<and> x < x0 + IMAGE_WIDTH"
proof -
  have o: "0 \<le> offset r1" "offset r1 \<le> IMAGE_WIDTH"
    using pre_step_inv [OF assms(2)] by (auto simp: r1_def reel_inv_def)
  note c = draw_column [OF assms(1) o assms(3,4)]
  obtain cs where "fst (snd (update images now r)) = fst (draw images r1) @ cs"
    using update_calls [OF assms(1)] unfolding r1_def by blast
  with c show ?thesis unfolding slot_call_def by auto
qed

text \<open>Witnesses.\<close>

theorem settle_winner_witness:
  "\<exists>r' cs. update [0, 1, 2, 3, 4 :: nat] 0 (init_reel\<lparr>startIndex := 4, offset := 1 / 10\<rparr>) =
     (r', cs, Settled 0) \<and> resting r' \<and> last cs = FillRect 128 0 128 128 \<and>
     (\<exists>x. DrawImage 0 x 0 128 128 \<in> set cs \<and> x \<le> 385 / 2 \<and> 385 / 2 < x + 128)"
proof -
  let ?r = "init_reel\<lparr>startIndex := 4, offset := 1 / 10\<rparr>"
  let ?u = "update [0, 1, 2, 3, 4 :: nat] 0 ?r"
  have inv: "reel_inv ?r" by (simp add: reel_inv_def init_reel_def)
  have ci: "center_index (1 / 10) = 1" by (simp add: center_index_left)
  have rs: "return_step 1 (1 / 10) = 0" by (simp add: return_step_def)
  have "snd (snd ?u) = Settled 0"
    using update_return(2) [of "[0, 1, 2, 3, 4 :: nat]" ?r 0] ci rs by (simp add: init_reel_def winner_def)
  then have u: "?u = (fst ?u, fst (snd ?u), Settled 0)" by (simp add: prod_eq_iff)
  from settle_winner [OF _ inv u] show ?thesis by (intro exI) (use u in auto)
qed

theorem draw_path_growth_witness:
  "length (path (fst (exec_calls (fst (draw [0, 1, 2, 3, 4 :: nat] init_reel)) init_ctx))) = 3"
  using draw_path_growth [of "[0, 1, 2, 3, 4 :: nat]" init_reel init_ctx]
  by (simp add: init_ctx_def)


theorem spin_settles_or_sticks_witness:
  "(\<exists>r' w. run [0, 1, 2, 3, 4 :: nat] ([100, 200] @ 600 # replicate 800 0)
                (fst (on_click 0 0 init_reel)) = (r', Won w)) \<or>
   (\<exists>r'. run [0, 1, 2, 3, 4 :: nat] ([100, 200] @ 600 # replicate 800 0)
                (fst (on_click 0 0 init_reel)) = (r', Running) \<and> stuck r')"
proof -
  have "decel_frames ((BASE_SPEED + of_nat (length [100, 200 :: real])) * DECELERATION_MULTIPLIER)
          \<le> 158"
    by (rule decel_frames_minimal) (simp_all add: power_divide)
  then show ?thesis
    using spin_settles_or_sticks [of "[0, 1, 2, 3, 4 :: nat]" init_reel "[100, 200]" 0 0 600
        "replicate 800 0"]
    by (simp del: run.simps add: resting_def init_reel_def random_int_def)
qed

theorem frame_paints_canvas_witness:
  "\<exists>x0. DrawImage (1 :: nat) x0 0 IMAGE_WIDTH IMAGE_HEIGHT
          \<in> set (fst (snd (update [0, 1, 2, 3, 4 :: nat] 0 (init_reel\<lparr>offset := 100\<rparr>)))) \<and>
        x0 \<le> 50 \<and> 50 < x0 + IMAGE_WIDTH"
  using frame_paints_canvas [of "[0, 1, 2, 3, 4 :: nat]" "init_reel\<lparr>offset := 100\<rparr>" 50 0]
  by (simp add: reel_inv_def init_reel_def pre_step_def wrap_offset_def accel_timeout_def)


theorem settle_highlight_offset_witness:
  "\<exists>r' cs. update [0, 1, 2, 3, 4 :: nat] 0 (init_reel\<lparr>startIndex := 4, offset := 1 / 10\<rparr>) =
     (r', cs, Settled 0) \<and>
     (\<exists>d. 0 < d \<and> d \<le> 1 / 5 \<and> DrawImage 0 (128 - d) 0 128 128 \<in> set cs \<and>
          last cs = FillRect 128 0 128 128)"
proof -
  let ?r = "init_reel\<lparr>startIndex := 4, offset := 1 / 10\<rparr>"
  let ?u = "update [0, 1, 2, 3, 4 :: nat] 0 ?r"
  have inv: "reel_inv ?r" "\<not> resting ?r" "state ?r = RETURN \<longrightarrow> offset ?r \<le> IMAGE_WIDTH + 1 / 10"
    by (simp_all add: reel_inv_def resting_def init_reel_def)
  have ci: "center_index (1 / 10) = 1" by (simp add: center_index_left)
  have rs: "return_step 1 (1 / 10) = 0" by (simp add: return_step_def)
  have "snd (snd ?u) = Settled 0"
    using update_return(2) [of "[0, 1, 2, 3, 4 :: nat]" ?r 0] ci rs by (simp add: init_reel_def winner_def)
  then have u: "?u = (fst ?u, fst (snd ?u), Settled 0)" by (simp add: prod_eq_iff)
  from settle_highlight_offset [OF _ inv u] show ?thesis by (intro exI) (use u in auto)
qed

end
